theory Spec2Isabelle
  imports Main "HOL-Library.Sublist"
begin

section \<open>Strings\<close>

text \<open>
  Python strings are modelled as \<open>string\<close> (lists of 8-bit characters); the model is
  exact on ASCII text.  \<open>str.lower\<close> maps the letters A..Z to a..z and leaves every other
  character alone; \<open>str.isspace\<close> (used by \<open>strip()\<close> and by the regular expression class
  \<open>\s\<close>) holds for the code points 9 to 13, 28 to 31 and 32.
\<close>

definition lower_char :: "char \<Rightarrow> char" where
  "lower_char c =
     (case map_of (zip ''ABCDEFGHIJKLMNOPQRSTUVWXYZ'' ''abcdefghijklmnopqrstuvwxyz'') c of
        Some d \<Rightarrow> d
      | None \<Rightarrow> c)"

definition lower :: "string \<Rightarrow> string" where
  "lower s = map lower_char s"

definition is_upper :: "char \<Rightarrow> bool" where
  "is_upper c = (c \<in> set ''ABCDEFGHIJKLMNOPQRSTUVWXYZ'')"

definition is_space :: "char \<Rightarrow> bool" where
  "is_space c =
     (c \<in> set [CHR 0x09, CHR 0x0A, CHR 0x0B, CHR 0x0C, CHR 0x0D,
                 CHR 0x1C, CHR 0x1D, CHR 0x1E, CHR 0x1F, CHR '' ''])"

text \<open>\<open>s.lstrip(chars)\<close>, \<open>s.rstrip(chars)\<close>, \<open>s.strip(chars)\<close> and the argument-free \<open>s.strip()\<close>.\<close>

definition lstrip_chars :: "string \<Rightarrow> string \<Rightarrow> string" where
  "lstrip_chars cs s = dropWhile (\<lambda>c. c \<in> set cs) s"

definition rstrip_chars :: "string \<Rightarrow> string \<Rightarrow> string" where
  "rstrip_chars cs s = rev (dropWhile (\<lambda>c. c \<in> set cs) (rev s))"

definition strip_chars :: "string \<Rightarrow> string \<Rightarrow> string" where
  "strip_chars cs s = rstrip_chars cs (lstrip_chars cs s)"

definition strip :: "string \<Rightarrow> string" where
  "strip s = rev (dropWhile is_space (rev (dropWhile is_space s)))"

text \<open>
  \<open>s.replace(old, new)\<close>: every non-overlapping occurrence of \<open>old\<close>, found from the left,
  is replaced by \<open>new\<close>; an empty \<open>old\<close> matches before every character and at the end.
\<close>

function replace :: "string \<Rightarrow> string \<Rightarrow> string \<Rightarrow> string" where
  "replace old new [] = (if old = [] then new else [])"
| "replace old new (c # cs) =
     (if old = [] then new @ c # replace old new cs
      else if prefix old (c # cs) then new @ replace old new (drop (length old) (c # cs))
      else c # replace old new cs)"
  by pat_completeness auto
termination
  by (relation "measure (\<lambda>(old, new, s). length s)") auto

text \<open>\<open>sep.join(xs)\<close> and \<open>s.split(c)[-1]\<close> (the part after the last \<open>c\<close>).\<close>

fun join :: "string \<Rightarrow> string list \<Rightarrow> string" where
  "join sep [] = []"
| "join sep [x] = x"
| "join sep (x # y # ys) = x @ sep @ join sep (y # ys)"

definition last_split :: "char \<Rightarrow> string \<Rightarrow> string" where
  "last_split c s = rev (takeWhile (\<lambda>d. d \<noteq> c) (rev s))"

text \<open>Truth value of an optional string: \<open>None\<close> and the empty string are false.\<close>

fun truthy :: "string option \<Rightarrow> bool" where
  "truthy None = False"
| "truthy (Some s) = (s \<noteq> [])"

section \<open>Path normalizer\<close>

text \<open>
  \<^verbatim>\<open>def normalize_path(path): return path.lower().replace(" ", "").strip(".")\<close>
\<close>

definition normalize_path :: "string \<Rightarrow> string" where
  "normalize_path path = strip_chars ''.'' (replace '' '' '''' (lower path))"

section \<open>Element trees\<close>

text \<open>
  An \<open>xml.etree.ElementTree\<close> element: its tag (with the namespace in braces when there
  is one), its attributes, its text, the text after its end tag, and its children in
  document order.
\<close>

datatype element =
  Element (tag: string) (attrib: "(string \<times> string) list")
          (elem_text: "string option") (tail: "string option") (children: "element list")

definition get :: "element \<Rightarrow> string \<Rightarrow> string option" where
  "get e k = map_of (attrib e) k"

definition get_default :: "element \<Rightarrow> string \<Rightarrow> string \<Rightarrow> string" where
  "get_default e k d = (case get e k of None \<Rightarrow> d | Some v \<Rightarrow> v)"

text \<open>\<open>e.findall(t)\<close> and \<open>e.find(t)\<close>: the direct children whose tag is exactly \<open>t\<close>.\<close>

definition findall :: "element \<Rightarrow> string \<Rightarrow> element list" where
  "findall e t = filter (\<lambda>c. tag c = t) (children e)"

definition find_child :: "element \<Rightarrow> string \<Rightarrow> element option" where
  "find_child e t = List.find (\<lambda>c. tag c = t) (children e)"

text \<open>The descendants of an element in document order, the element itself excluded.\<close>

fun descendants :: "element \<Rightarrow> element list" where
  "descendants (Element t a tx ta cs) = concat (map (\<lambda>c. c # descendants c) cs)"

text \<open>\<open>e.findall(".//t")\<close>, \<open>e.find(".//t")\<close> and \<open>e.iter()\<close>.\<close>

definition findall_desc :: "element \<Rightarrow> string \<Rightarrow> element list" where
  "findall_desc e t = filter (\<lambda>c. tag c = t) (descendants e)"

definition find_desc :: "element \<Rightarrow> string \<Rightarrow> element option" where
  "find_desc e t = List.find (\<lambda>c. tag c = t) (descendants e)"

definition iter :: "element \<Rightarrow> element list" where
  "iter e = e # descendants e"

text \<open>\<open>''.join(e.itertext())\<close>\<close>

fun itertext :: "element \<Rightarrow> string" where
  "itertext (Element t a tx ta cs) =
     (case tx of None \<Rightarrow> [] | Some s \<Rightarrow> s) @
     concat (map (\<lambda>c. itertext c @ (case tail c of None \<Rightarrow> [] | Some s \<Rightarrow> s)) cs)"

section \<open>DataType chain resolver\<close>

text \<open>
  The bound rendering that the source repeats for \<open>size\<close> (minLength, maxLength) and
  \<open>range\<close> (minInclusive, maxInclusive): the entry appended to \<open>size_ranges\<close>, if any.
\<close>

definition bounds :: "string option \<Rightarrow> string option \<Rightarrow> string list" where
  "bounds mn mx =
     (if truthy mn \<and> truthy mx then [the mn @ '':'' @ the mx]
      else if truthy mn then [the mn @ '':'']
      else if truthy mx then [the mx]
      else [])"

definition size_ranges_of :: "element \<Rightarrow> string list" where
  "size_ranges_of elem =
     concat (map (\<lambda>size_elem. bounds (get size_elem ''minLength'') (get size_elem ''maxLength''))
                 (findall elem ''size'')) @
     (case find_child elem ''range'' of
        None \<Rightarrow> []
      | Some range_elem \<Rightarrow> bounds (get range_elem ''minInclusive'') (get range_elem ''maxInclusive''))"

definition size_range_str_of :: "string \<Rightarrow> string list \<Rightarrow> string" where
  "size_range_str_of tag_name_norm size_ranges =
     (if tag_name_norm \<in> set [''int'', ''long'', ''unsignedint'']
      then (if size_ranges \<noteq> [] then ''['' @ join '', '' size_ranges @ '']'' else [])
      else (if size_ranges \<noteq> [] then ''('' @ join '', '' size_ranges @ '')'' else []))"

definition enum_values_of :: "element \<Rightarrow> string list" where
  "enum_values_of elem = List.map_filter (\<lambda>e. get e ''value'') (findall elem ''enumeration'')"

text \<open>\<open>extract_type_info\<close> (lines 33-88).\<close>

definition extract_type_info :: "element \<Rightarrow> string" where
  "extract_type_info elem =
     (let tag_name = last_split CHR ''}'' (lower (tag elem));
          tag_name_norm = lower tag_name;
          size_ranges = size_ranges_of elem;
          size_range_str = size_range_str_of tag_name_norm size_ranges;
          enum_values = enum_values_of elem;
          enum_str = join '','' enum_values;
          pure_enum = (tag_name_norm = ''string'' \<and>
                       list_all (\<lambda>child. last_split CHR ''}'' (lower (tag child)) = ''enumeration'')
                                (children elem));
          base = (if enum_values \<noteq> [] then (if pure_enum then ''string'' else ''enum'')
                  else tag_name_norm);
          shown_values = (if enum_values \<noteq> [] \<and> pure_enum then [] else enum_values);
          type_str = (if size_ranges \<noteq> [] then base @ size_range_str else base)
      in if shown_values \<noteq> [] then type_str @ ''['' @ enum_str @ '']'' else type_str)"

text \<open>Lines 93-101: the first child, description children skipped, with a non-empty rendering.\<close>

fun first_type_info :: "element list \<Rightarrow> string option" where
  "first_type_info [] = None"
| "first_type_info (child # rest) =
     (if last_split CHR ''}'' (lower (tag child)) \<in> set [''description'']
      then first_type_info rest
      else (let type_info = extract_type_info child
            in if type_info \<noteq> [] then Some type_info else first_type_info rest))"

text \<open>Lines 103-108: the first primitive tag, in the order of the list, found anywhere below.\<close>

fun primitive_fallback :: "element \<Rightarrow> string list \<Rightarrow> string option" where
  "primitive_fallback elem [] = None"
| "primitive_fallback elem (t # ts) =
     (case find_desc elem t of
        None \<Rightarrow> primitive_fallback elem ts
      | Some syntax_elem \<Rightarrow>
          (let type_info = extract_type_info syntax_elem
           in if type_info \<noteq> [] then Some type_info else primitive_fallback elem ts))"

text \<open>Lines 93-143: everything \<open>walk_base_chain\<close> tries on one element before it follows \<open>base\<close>.\<close>

definition local_type_info :: "element \<Rightarrow> string option" where
  "local_type_info elem =
     (case first_type_info (children elem) of
        Some type_info \<Rightarrow> Some type_info
      | None \<Rightarrow>
     (case primitive_fallback elem
             [''string'', ''int'', ''unsignedInt'', ''unsignedLong'', ''hexBinary'',
              ''dateTime'', ''boolean'', ''list''] of
        Some type_info \<Rightarrow> Some type_info
      | None \<Rightarrow>
     (if findall elem ''enumeration'' \<noteq> []
      then Some (''enum['' @ join '','' (enum_values_of elem) @ '']'')
      else (let size_ranges = size_ranges_of elem;
                tag_name_norm = last_split CHR ''}'' (lower (tag elem));
                size_range_str = size_range_str_of tag_name_norm size_ranges
            in if size_range_str \<noteq> [] then Some (tag_name_norm @ size_range_str) else None))))"

text \<open>The first \<open>dataType\<close> element anywhere below the root whose name is the given one.\<close>

definition find_datatype :: "element \<Rightarrow> string \<Rightarrow> element option" where
  "find_datatype xml_root name =
     List.find (\<lambda>dt. get dt ''name'' = Some name) (findall_desc xml_root ''dataType'')"

definition datatype_names :: "element \<Rightarrow> string set" where
  "datatype_names xml_root =
     set (List.map_filter (\<lambda>dt. get dt ''name'') (findall_desc xml_root ''dataType''))"

text \<open>
  The recursion limit of the interpreter.  \<open>walk_base_chain\<close> and \<open>extract_template_data\<close>
  call themselves once for every link of a chain, each call on a new frame of the
  interpreter, and nothing in the source bounds the depth: past the recursion limit the
  interpreter raises \<open>RecursionError\<close>, which no function below \<open>process_xml_file\<close> catches.
  The parameter \<open>frames\<close> of the recursive functions, and of the functions that call them,
  is the number of nested invocations of the recursive function that the recursion limit
  still admits; with no frame left the call raises.  The frames of the calls that do not
  recurse (the renderer, the searches in the tree) are a constant and are left out of the
  count.
\<close>

datatype error = RecursionError

text \<open>\<open>walk_base_chain\<close> (lines 91-155); \<open>visited\<close> is the set the source mutates.\<close>

fun walk_base_chain ::
    "nat \<Rightarrow> element \<Rightarrow> element \<Rightarrow> string set \<Rightarrow> error + string option" where
  "walk_base_chain 0 elem xml_root visited = Inl RecursionError"
| "walk_base_chain (Suc frames) elem xml_root visited =
     (case local_type_info elem of
        Some type_info \<Rightarrow> Inr (Some type_info)
      | None \<Rightarrow>
          (case get elem ''base'' of
             None \<Rightarrow> Inr None
           | Some base \<Rightarrow>
               if base \<noteq> [] \<and> base \<notin> visited
               then (case find_datatype xml_root base of
                       None \<Rightarrow> Inr None
                     | Some parent_elem \<Rightarrow>
                         walk_base_chain frames parent_elem xml_root (insert base visited))
               else Inr None))"

text \<open>
  \<open>resolve_datatype_reference\<close> (lines 11-170).  The fallback of lines 163-168 is the loop of
  lines 93-101 once more, on the children of the element found first.
\<close>

definition resolve_datatype_reference ::
    "nat \<Rightarrow> string \<Rightarrow> element \<Rightarrow> string set option \<Rightarrow> error + string option" where
  "resolve_datatype_reference frames datatype_name xml_root visited_arg =
     (let visited = (case visited_arg of None \<Rightarrow> {} | Some v \<Rightarrow> v)
      in if datatype_name \<in> visited then Inr None
         else (case find_datatype xml_root datatype_name of
                 None \<Rightarrow> Inr None
               | Some dt_elem \<Rightarrow>
                   (case walk_base_chain frames dt_elem xml_root (insert datatype_name visited) of
                      Inl e \<Rightarrow> Inl e
                    | Inr (Some resolved_type) \<Rightarrow>
                        if resolved_type \<noteq> [] then Inr (Some resolved_type)
                        else Inr (first_type_info (children dt_elem))
                    | Inr None \<Rightarrow> Inr (first_type_info (children dt_elem)))))"

text \<open>
  Chains of the definition table, in the words of the specification.  \<open>base_links\<close>: each
  name is defined in the table, and each definition but the last names the next one as
  its \<open>base\<close>.  An acyclic chain of depth N has N distinct names, and the last definition
  has no base in the table.  In a cyclic chain the last definition has one of the names
  of the chain as its base.
\<close>

fun base_links :: "element \<Rightarrow> string list \<Rightarrow> bool" where
  "base_links xml_root [] = True"
| "base_links xml_root [n] = (find_datatype xml_root n \<noteq> None)"
| "base_links xml_root (n # m # ns) =
     (case find_datatype xml_root n of
        None \<Rightarrow> False
      | Some dt \<Rightarrow> get dt ''base'' = Some m \<and> m \<noteq> [] \<and> base_links xml_root (m # ns))"

definition last_base :: "element \<Rightarrow> string list \<Rightarrow> string option" where
  "last_base xml_root ns =
     (case find_datatype xml_root (last ns) of None \<Rightarrow> None | Some dt \<Rightarrow> get dt ''base'')"

definition acyclic_base_chain :: "element \<Rightarrow> string list \<Rightarrow> bool" where
  "acyclic_base_chain xml_root ns =
     (ns \<noteq> [] \<and> distinct ns \<and> base_links xml_root ns \<and>
      (case last_base xml_root ns of
         None \<Rightarrow> True
       | Some b \<Rightarrow> b = [] \<or> find_datatype xml_root b = None))"

definition cyclic_base_chain :: "element \<Rightarrow> string list \<Rightarrow> bool" where
  "cyclic_base_chain xml_root ns =
     (ns \<noteq> [] \<and> distinct ns \<and> base_links xml_root ns \<and>
      (case last_base xml_root ns of None \<Rightarrow> False | Some b \<Rightarrow> b \<in> set ns))"

text \<open>No definition on the chain renders a type by itself.\<close>

definition no_local_type :: "element \<Rightarrow> string list \<Rightarrow> bool" where
  "no_local_type xml_root ns =
     list_all (\<lambda>n. case find_datatype xml_root n of
                     None \<Rightarrow> True
                   | Some dt \<Rightarrow> local_type_info dt = None) ns"

section \<open>Macro substitution and text cleaning\<close>

text \<open>
  The regular expression \<open>\{\{(.*?)\}\}\<close>: after an opening \<open>{{\<close>, the shortest run of
  characters other than a newline that is followed by \<open>}}\<close>.  \<open>find_close\<close> takes the text
  after the opening braces and returns the group and the text after the closing braces.
\<close>

fun find_close :: "string \<Rightarrow> (string \<times> string) option" where
  "find_close [] = None"
| "find_close (c # cs) =
     (if prefix ''}}'' (c # cs) then Some ([], drop 2 (c # cs))
      else if c = CHR 0x0A then None
      else (case find_close cs of None \<Rightarrow> None | Some (g, r) \<Rightarrow> Some (c # g, r)))"

lemma find_close_length: "find_close s = Some (g, r) \<Longrightarrow> length r < length s"
  by (induction s arbitrary: g r) (auto split: if_splits option.splits)

text \<open>\<open>re.sub(r"\{\{(.*?)\}\}", f, text)\<close>, the replacement function applied to the group.\<close>

function re_sub_macros :: "(string \<Rightarrow> string) \<Rightarrow> string \<Rightarrow> string" where
  "re_sub_macros f [] = []"
| "re_sub_macros f (c # cs) =
     (if prefix ''{{'' (c # cs)
      then (case find_close (drop 2 (c # cs)) of
              None \<Rightarrow> c # re_sub_macros f cs
            | Some (g, r) \<Rightarrow> f g @ re_sub_macros f r)
      else c # re_sub_macros f cs)"
  by pat_completeness auto
termination
  by (relation "measure (\<lambda>(f, s). length s)") (auto dest!: find_close_length)

text \<open>\<open>s.split("|", 1)[1]\<close> for an \<open>s\<close> that contains the bar.\<close>

definition after_bar :: "string \<Rightarrow> string" where
  "after_bar s = drop 1 (dropWhile (\<lambda>d. d \<noteq> CHR ''|'') s)"

text \<open>\<open>macro_replacer\<close> (lines 181-207), on the text of the group.\<close>

definition macro_replacer :: "string option \<Rightarrow> string option \<Rightarrow> string \<Rightarrow> string" where
  "macro_replacer param_name object_path group1 =
     (let macro = strip group1
      in if macro = ''numentries''
         then (if truthy param_name \<and> suffix ''NumberOfEntries'' (the param_name)
               then (let table = replace ''NumberOfEntries'' [] (the param_name);
                         full_table = (if truthy object_path then the object_path @ table else table)
                     in ''The number of entries in the '' @ full_table @ '' table.'')
               else ''The number of entries.'')
         else if macro = ''empty'' then ''an empty string''
         else if macro = ''pattern'' then ''a valid value matching the required pattern''
         else if macro \<in> set [''reference'', ''referenceName'', ''noreference''] then []
         else if prefix ''param|'' macro \<or> prefix ''object|'' macro \<or> prefix ''bibref|'' macro
         then after_bar macro
         else if prefix ''reference|'' macro
         then (let content = after_bar macro
               in replace ''{{object}}''
                    (if truthy object_path then rstrip_chars ''.'' (the object_path) else ''this object'')
                    content)
         else [])"

text \<open>
  \<open>substitute_macros\<close> (lines 177-214).  Neither the expression nor \<open>macro_replacer\<close> raises
  on a string, so the \<open>except\<close> branch of the source is never taken.
\<close>

definition substitute_macros :: "string \<Rightarrow> string option \<Rightarrow> string option \<Rightarrow> string" where
  "substitute_macros txt param_name object_path =
     (if txt = [] then []
      else strip (re_sub_macros (macro_replacer param_name object_path) txt))"

text \<open>\<open>re.sub(r'\s+', ' ', text)\<close>: every maximal run of white space becomes one space.\<close>

function collapse_ws :: "string \<Rightarrow> string" where
  "collapse_ws [] = []"
| "collapse_ws (c # cs) =
     (if is_space c then CHR '' '' # collapse_ws (dropWhile is_space cs)
      else c # collapse_ws cs)"
  by pat_completeness auto
termination
  by (relation "measure length") (auto simp: length_dropWhile_le less_Suc_eq_le)

definition clean_text :: "string option \<Rightarrow> string" where
  "clean_text txt = (case txt of None \<Rightarrow> [] | Some s \<Rightarrow> strip (collapse_ws s))"

section \<open>Template and reference resolvers\<close>

text \<open>
  An entry of \<open>templates_dict\<close>, as \<open>extract_template_data_from_xml\<close> builds it, and the
  dictionary \<open>extract_template_data\<close> returns.
\<close>

record template =
  t_name :: string
  t_ref :: string
  t_template :: string
  t_description :: string
  t_data_type :: string
  t_default_value :: string

record template_data =
  td_description :: string
  td_data_type :: string
  td_default_value :: string

text \<open>Lines 599-604: the parent fills the fields that are still empty.\<close>

definition fill_from_parent :: "template_data \<Rightarrow> template_data \<Rightarrow> template_data" where
  "fill_from_parent data parent_data =
     \<lparr> td_description =
         (if td_description data = [] \<and> td_description parent_data \<noteq> []
          then td_description parent_data else td_description data),
       td_data_type =
         (if td_data_type data = [] \<and> td_data_type parent_data \<noteq> []
          then td_data_type parent_data else td_data_type data),
       td_default_value =
         (if td_default_value data = [] \<and> td_default_value parent_data \<noteq> []
          then td_default_value parent_data else td_default_value data) \<rparr>"

text \<open>
  \<open>extract_template_data\<close> (lines 574-606).  The recursion follows the parent names with no
  record of the names already seen; \<open>Inr None\<close> is the Python \<open>None\<close> of a name that is not
  in the table.
\<close>

fun extract_template_data ::
    "nat \<Rightarrow> string \<Rightarrow> (string \<rightharpoonup> template) \<Rightarrow> error + template_data option" where
  "extract_template_data 0 template_name templates_dict = Inl RecursionError"
| "extract_template_data (Suc frames) template_name templates_dict =
     (case templates_dict template_name of
        None \<Rightarrow> Inr None
      | Some template_data \<Rightarrow>
          (let data = \<lparr> td_description = t_description template_data,
                        td_data_type = t_data_type template_data,
                        td_default_value = t_default_value template_data \<rparr>;
               parent_template = t_template template_data
           in if parent_template \<noteq> []
              then (case extract_template_data frames parent_template templates_dict of
                      Inl e \<Rightarrow> Inl e
                    | Inr None \<Rightarrow> Inr (Some data)
                    | Inr (Some pd) \<Rightarrow> Inr (Some (fill_from_parent data pd)))
              else Inr (Some data)))"

text \<open>
  The parent chain from a name ends within a number of invocations: at a name missing
  from the table or at a template with no parent.
\<close>

fun template_chain_ends_within :: "nat \<Rightarrow> (string \<rightharpoonup> template) \<Rightarrow> string \<Rightarrow> bool" where
  "template_chain_ends_within 0 templates_dict template_name = False"
| "template_chain_ends_within (Suc frames) templates_dict template_name =
     (case templates_dict template_name of
        None \<Rightarrow> True
      | Some t \<Rightarrow>
          t_template t = [] \<or> template_chain_ends_within frames templates_dict (t_template t))"

text \<open>\<open>resolve_reference\<close> (lines 511-529); the dictionary it returns has no default value.\<close>

record ref_data =
  rd_description :: string
  rd_data_type :: string

definition resolve_reference :: "string \<Rightarrow> (string \<rightharpoonup> string) \<Rightarrow> ref_data option" where
  "resolve_reference ref_name references_dict =
     (case references_dict ref_name of
        Some target \<Rightarrow> Some \<lparr> rd_description = ''Reference to: '' @ target, rd_data_type = [] \<rparr>
      | None \<Rightarrow> None)"

section \<open>Parameter extractor\<close>

record param_data =
  Object_Name :: string
  Parameter_Name :: string
  Full_Path :: string
  Access :: string
  Version :: string
  Description :: string
  Data_Type :: string
  Object_Default :: string
  Is_Object :: bool

text \<open>\<open>sub in s\<close> on strings.\<close>

fun contains :: "string \<Rightarrow> string \<Rightarrow> bool" where
  "contains sub [] = (sub = [])"
| "contains sub (c # cs) = (prefix sub (c # cs) \<or> contains sub cs)"

text \<open>The tag name of lines 298, 321 and 332: \<open>tag.split('}')[-1].lower()\<close>.\<close>

definition tag_name_of :: "element \<Rightarrow> string" where
  "tag_name_of e = lower (last_split CHR ''}'' (tag e))"

text \<open>Line 245.\<close>

definition full_path_of :: "string \<Rightarrow> string \<Rightarrow> string" where
  "full_path_of parent_object_name name =
     rstrip_chars ''.''
       (strip_chars ''.'' (replace '' '' [] (rstrip_chars ''.'' parent_object_name @ ''.'' @ name)))"

text \<open>
  Lines 275-281: every child whose tag contains \<open>description\<close> sets the description, so the
  last one stays; \<open>None\<close> is \<open>found_xml_desc = False\<close>.
\<close>

fun embedded_description :: "element list \<Rightarrow> string \<Rightarrow> string \<Rightarrow> string option \<Rightarrow> string option" where
  "embedded_description [] name parent_object_name found = found"
| "embedded_description (desc_elem # rest) name parent_object_name found =
     (if contains ''description'' (lower (tag desc_elem))
      then embedded_description rest name parent_object_name
             (Some (clean_text (Some (substitute_macros (itertext desc_elem)
                                        (Some name) (Some parent_object_name)))))
      else embedded_description rest name parent_object_name found)"

text \<open>
  Lines 259-283.  \<open>html_descriptions\<close> is a dictionary in insertion order: a list of pairs
  with distinct keys.
\<close>

definition description_stage ::
    "(string \<times> string) list \<Rightarrow> element \<Rightarrow> string \<Rightarrow> string \<Rightarrow> string \<Rightarrow> string" where
  "description_stage html_descriptions param_elem name parent_object_name full_path =
     (let normalized = normalize_path full_path
      in case map_of html_descriptions normalized of
           Some d \<Rightarrow> d
         | None \<Rightarrow>
             (let relaxed = replace ''{i}'' [] normalized
              in case List.find (\<lambda>(key, d). relaxed = replace ''{i}'' [] key) html_descriptions of
                   Some (key, d) \<Rightarrow> d
                 | None \<Rightarrow>
                     (case embedded_description (children param_elem) name parent_object_name None of
                        Some d \<Rightarrow> d
                      | None \<Rightarrow> ''No HTML or XML description available'')))"

text \<open>
  Lines 297-311: the first pass over the children of a syntax element.  A \<open>default\<close> child
  sets the default value; the first \<open>dataType\<close> child ends the pass with its \<open>ref\<close>.
\<close>

fun scan_defaults :: "element list \<Rightarrow> string \<Rightarrow> string \<times> string option" where
  "scan_defaults [] object_default = (object_default, None)"
| "scan_defaults (type_elem # rest) object_default =
     (let tag_name = tag_name_of type_elem
      in if tag_name = ''default''
         then (case get type_elem ''value'' of
                 Some v \<Rightarrow> scan_defaults rest v
               | None \<Rightarrow>
                   if truthy (elem_text type_elem)
                   then scan_defaults rest (strip (the (elem_text type_elem)))
                   else scan_defaults rest object_default)
         else if tag_name = ''datatype'' then (object_default, get type_elem ''ref'')
         else scan_defaults rest object_default)"

text \<open>The \<open>value\<close> children of a type element (lines 361-365, 385-389, 394-398).\<close>

fun value_default :: "element list \<Rightarrow> string \<Rightarrow> string" where
  "value_default [] object_default = object_default"
| "value_default (value_elem # rest) object_default =
     (if contains ''value'' (lower (tag value_elem)) \<and> truthy (elem_text value_elem)
      then value_default rest (strip (the (elem_text value_elem)))
      else value_default rest object_default)"

text \<open>Lines 340-351 and 370-381: every \<open>size\<close> below a hexBinary element.\<close>

definition hexbinary_format :: "element \<Rightarrow> string" where
  "hexbinary_format e =
     (let size_parts =
            concat (map (\<lambda>size. bounds (get size ''minLength'') (get size ''maxLength''))
                        (findall_desc e ''size''))
      in if size_parts \<noteq> [] then ''hexbinary('' @ join '', '' size_parts @ '')''
         else ''hexbinary'')"

text \<open>The local variables of the second pass (lines 289-293) and the default value.\<close>

record syntax_state =
  is_list :: bool
  data_type :: string
  formatted_type :: string
  size_elem :: "element option"
  range_elem :: "element option"
  object_default :: string

text \<open>Lines 320-398: one child of the syntax element.\<close>

definition type_step :: "syntax_state \<Rightarrow> element \<Rightarrow> syntax_state" where
  "type_step st type_elem =
     (let tag_name = tag_name_of type_elem
      in if tag_name = ''default'' then st
         else if tag_name = ''list''
         then (let st1 = st \<lparr> is_list := True,
                               size_elem := find_desc type_elem ''size'',
                               range_elem := find_desc type_elem ''range'' \<rparr>
               in case List.find (\<lambda>child. tag_name_of child = ''hexbinary'') (children type_elem) of
                    Some list_type_elem \<Rightarrow>
                      st1 \<lparr> data_type := ''hexbinary'',
                            formatted_type := hexbinary_format list_type_elem \<rparr>
                  | None \<Rightarrow> st1)
         else if tag_name \<in> set [''string'', ''int'', ''unsignedint'', ''long'', ''unsignedlong'']
         then st \<lparr> data_type := tag_name,
                    size_elem := (if \<not> is_list st then find_desc type_elem ''size'' else size_elem st),
                    range_elem := (if \<not> is_list st then find_desc type_elem ''range'' else range_elem st),
                    object_default := value_default (children type_elem) (object_default st) \<rparr>
         else if tag_name = ''hexbinary''
         then st \<lparr> data_type := tag_name,
                    formatted_type := hexbinary_format type_elem,
                    object_default := value_default (children type_elem) (object_default st) \<rparr>
         else if tag_name \<notin> set [''list'', ''string'', ''int'', ''unsignedint'', ''long'',
                                  ''unsignedlong'', ''datatype'', ''hexbinary'']
         then st \<lparr> data_type := tag_name,
                    formatted_type := tag_name,
                    object_default := value_default (children type_elem) (object_default st) \<rparr>
         else st)"

text \<open>Lines 401-411 and 445-455: a string with the first \<open>size\<close> found.\<close>

definition string_format :: "string \<Rightarrow> element option \<Rightarrow> string" where
  "string_format dt se =
     (case se of
        None \<Rightarrow> dt
      | Some s \<Rightarrow>
          (let min_len = get s ''minLength''; max_len = get s ''maxLength''
           in if truthy min_len \<and> truthy max_len
              then dt @ ''('' @ the min_len @ '':'' @ the max_len @ '')''
              else if truthy max_len then dt @ ''('' @ the max_len @ '')''
              else dt))"

text \<open>Lines 418-434 and 462-469: a range between the given brackets.\<close>

definition range_format :: "string \<Rightarrow> string \<Rightarrow> string \<Rightarrow> element \<Rightarrow> string" where
  "range_format dt opening closing r =
     (let min_val = get r ''minInclusive''; max_val = get r ''maxInclusive''
      in if truthy min_val \<and> truthy max_val
         then dt @ opening @ the min_val @ '':'' @ the max_val @ closing
         else if truthy min_val then dt @ opening @ the min_val @ '':'' @ closing
         else if truthy max_val then dt @ opening @ '':'' @ the max_val @ closing
         else dt)"

text \<open>Lines 399-481: the type signature of an inline syntax block.\<close>

definition format_type :: "syntax_state \<Rightarrow> string" where
  "format_type st =
     (let dt = data_type st;
          ft =
            (if is_list st
             then (if dt = ''string'' then string_format dt (size_elem st)
                   else if dt \<in> set [''int'', ''unsignedint'', ''long'', ''unsignedlong'']
                   then (case range_elem st of
                           Some r \<Rightarrow>
                             if dt = ''unsignedint'' then range_format dt ''['' '']'' r
                             else range_format dt ''('' '')'' r
                         | None \<Rightarrow> dt)
                   else if dt = ''hexbinary''
                   then (if formatted_type st = [] then dt else formatted_type st)
                   else dt)
             else (if dt = ''string'' then string_format dt (size_elem st)
                   else if dt \<in> set [''int'', ''unsignedint'', ''long'', ''unsignedlong'']
                   then (case range_elem st of
                           Some r \<Rightarrow>
                             if dt \<in> set [''int'', ''long'', ''unsignedint'']
                             then range_format dt ''['' '']'' r
                             else dt
                         | None \<Rightarrow> dt)
                   else if dt = ''hexbinary''
                   then (if formatted_type st = [] then dt else formatted_type st)
                   else (if formatted_type st = [] then dt else formatted_type st)))
      in if ft \<noteq> [] then ft else dt)"

text \<open>
  Lines 287-481: one syntax element; the result is the new \<open>Data Type\<close> and \<open>Object Default\<close>.
\<close>

definition process_syntax ::
    "nat \<Rightarrow> element \<Rightarrow> element \<Rightarrow> string \<Rightarrow> error + string \<times> string" where
  "process_syntax frames syntax_elem xml_root object_default0 =
     (case scan_defaults (children syntax_elem) object_default0 of
        (object_default1, datatype_ref_found) \<Rightarrow>
          if truthy datatype_ref_found
          then (case resolve_datatype_reference frames (the datatype_ref_found) xml_root None of
                  Inl e \<Rightarrow> Inl e
                | Inr (Some resolved_type) \<Rightarrow>
                    if resolved_type \<noteq> [] then Inr (resolved_type, object_default1)
                    else Inr (''ref('' @ the datatype_ref_found @ '')'', object_default1)
                | Inr None \<Rightarrow> Inr (''ref('' @ the datatype_ref_found @ '')'', object_default1))
          else (let st = foldl type_step
                           \<lparr> is_list = False, data_type = [], formatted_type = [],
                             size_elem = None, range_elem = None,
                             object_default = object_default1 \<rparr>
                           (children syntax_elem)
                in Inr (format_type st, object_default st)))"

text \<open>Lines 286-287: every child of the parameter whose tag contains \<open>syntax\<close>, in turn.\<close>

fun syntax_stage ::
    "nat \<Rightarrow> element list \<Rightarrow> element \<Rightarrow> string \<times> string \<Rightarrow> error + string \<times> string" where
  "syntax_stage frames [] xml_root acc = Inr acc"
| "syntax_stage frames (syntax_elem # rest) xml_root acc =
     (if contains ''syntax'' (lower (tag syntax_elem))
      then (case process_syntax frames syntax_elem xml_root (snd acc) of
              Inl e \<Rightarrow> Inl e
            | Inr acc' \<Rightarrow> syntax_stage frames rest xml_root acc')
      else syntax_stage frames rest xml_root acc)"

text \<open>Lines 487-494 and 500-507.\<close>

definition apply_template :: "param_data \<Rightarrow> template_data option \<Rightarrow> param_data" where
  "apply_template pd template_data =
     (case template_data of
        None \<Rightarrow> pd
      | Some td \<Rightarrow>
          (let pd1 = (if Description pd = [] \<and> td_description td \<noteq> []
                      then pd \<lparr> Description := td_description td \<rparr> else pd);
               pd2 = (if Data_Type pd1 = [] \<and> td_data_type td \<noteq> []
                      then pd1 \<lparr> Data_Type := td_data_type td \<rparr> else pd1)
           in if Object_Default pd2 = [] \<and> td_default_value td \<noteq> []
              then pd2 \<lparr> Object_Default := td_default_value td \<rparr> else pd2))"

definition apply_reference :: "param_data \<Rightarrow> ref_data option \<Rightarrow> param_data" where
  "apply_reference pd ref_data =
     (case ref_data of
        None \<Rightarrow> pd
      | Some rd \<Rightarrow>
          (let pd1 = (if Description pd = [] then pd \<lparr> Description := rd_description rd \<rparr> else pd);
               pd2 = (if Data_Type pd1 = [] then pd1 \<lparr> Data_Type := rd_data_type rd \<rparr> else pd1)
           in if Object_Default pd2 = [] then pd2 \<lparr> Object_Default := [] \<rparr> else pd2))"

text \<open>
  Lines 236-283 and the result of lines 286-481: the record before the template and the
  reference are applied, from the \<open>Data Type\<close> and \<open>Object Default\<close> that the syntax elements
  gave.
\<close>

definition schema_stage ::
    "element \<Rightarrow> string \<Rightarrow> (string \<times> string) list \<Rightarrow> string \<times> string \<Rightarrow> param_data" where
  "schema_stage param_elem parent_object_name html_descriptions typed =
     (let name = get_default param_elem ''name'' [];
          full_path = full_path_of parent_object_name name;
          description = description_stage html_descriptions param_elem name parent_object_name full_path
      in \<lparr> Object_Name = parent_object_name,
           Parameter_Name = name,
           Full_Path = full_path,
           Access = get_default param_elem ''access'' [],
           Version = get_default param_elem ''version'' [],
           Description = description,
           Data_Type = fst typed,
           Object_Default = snd typed,
           Is_Object = False \<rparr>)"

text \<open>
  \<open>extract_parameter_data\<close> (lines 223-509).  It raises when the resolution of a data type
  or of the template does.
\<close>

definition extract_parameter_data ::
    "nat \<Rightarrow> element \<Rightarrow> string \<Rightarrow> (string \<rightharpoonup> string) \<Rightarrow> (string \<rightharpoonup> template) \<Rightarrow>
     (string \<times> string) list \<Rightarrow> element \<Rightarrow> error + param_data" where
  "extract_parameter_data frames param_elem parent_object_name references_dict templates_dict
                          html_descriptions xml_root =
     (let ref = get_default param_elem ''ref'' [];
          template_ref = get_default param_elem ''template'' []
      in case syntax_stage frames (children param_elem) xml_root ([], []) of
           Inl e \<Rightarrow> Inl e
         | Inr typed \<Rightarrow>
             (let pd0 = schema_stage param_elem parent_object_name html_descriptions typed
              in case (if template_ref \<noteq> []
                       then (case extract_template_data frames template_ref templates_dict of
                               Inl e \<Rightarrow> Inl e
                             | Inr template_data \<Rightarrow> Inr (apply_template pd0 template_data))
                       else Inr pd0) of
                   Inl e \<Rightarrow> Inl e
                 | Inr pd1 \<Rightarrow>
                     Inr (if ref \<noteq> []
                          then apply_reference pd1 (resolve_reference ref references_dict)
                          else pd1)))"

section \<open>Example documents\<close>

text \<open>Two definitions that name each other as base, and none of them has a primitive.\<close>

definition cyclic_doc :: element where
  "cyclic_doc =
     Element ''document'' [] None None
       [Element ''dataType'' [(''name'', ''A''), (''base'', ''B'')] None None [],
        Element ''dataType'' [(''name'', ''B''), (''base'', ''A'')] None None []]"

text \<open>A chain of depth two: \<open>A\<close> is based on \<open>B\<close>, and \<open>B\<close> is a string of at most 64 characters.\<close>

definition string64 :: element where
  "string64 =
     Element ''dataType'' [(''name'', ''B'')] None None
       [Element ''string'' [] None None
          [Element ''size'' [(''maxLength'', ''64'')] None None []]]"

definition alias_A :: element where
  "alias_A = Element ''dataType'' [(''name'', ''A''), (''base'', ''B'')] None None []"

definition chain_doc :: element where
  "chain_doc = Element ''document'' [] None None [alias_A, string64]"

text \<open>
  A chain of \<open>n\<close> definitions with no primitive: the definition with the name of \<open>k + 1\<close>
  letters is based on the one with \<open>k + 2\<close> letters, and the last one has no base.
\<close>

definition chain_name :: "nat \<Rightarrow> string" where
  "chain_name k = replicate (Suc k) CHR ''a''"

definition chain_link :: "nat \<Rightarrow> nat \<Rightarrow> element" where
  "chain_link n k =
     Element ''dataType''
       ((''name'', chain_name k) # (if Suc k < n then [(''base'', chain_name (Suc k))] else []))
       None None []"

definition deep_chain_doc :: "nat \<Rightarrow> element" where
  "deep_chain_doc n = Element ''document'' [] None None (map (chain_link n) [0..<n])"

text \<open>Two templates that name each other as parent.\<close>

definition cyclic_templates :: "string \<rightharpoonup> template" where
  "cyclic_templates =
     [''A'' \<mapsto> \<lparr> t_name = ''A'', t_ref = [], t_template = ''B'', t_description = [],
                  t_data_type = [], t_default_value = [] \<rparr>,
      ''B'' \<mapsto> \<lparr> t_name = ''B'', t_ref = [], t_template = ''A'', t_description = [],
                  t_data_type = [], t_default_value = [] \<rparr>]"

text \<open>A template with a description of its own, and a child of it that has none.\<close>

definition alias_templates :: "string \<rightharpoonup> template" where
  "alias_templates =
     [''Alias'' \<mapsto> \<lparr> t_name = ''Alias'', t_ref = [], t_template = [],
                      t_description = ''A non-volatile handle'', t_data_type = ''string'',
                      t_default_value = [] \<rparr>,
      ''MyAlias'' \<mapsto> \<lparr> t_name = ''MyAlias'', t_ref = [], t_template = ''Alias'',
                        t_description = [], t_data_type = [], t_default_value = ''cpe-1'' \<rparr>]"

text \<open>
  The parameter \<open>Value\<close> of the object \<open>Device.Test.\<close>: an \<open>int\<close> with the range 1 to 10 and
  an embedded description with a macro.
\<close>

definition value_param :: element where
  "value_param =
     Element ''parameter'' [(''name'', ''Value'')] None None
       [Element ''description'' [] (Some ''Test value {{empty}}'') None [],
        Element ''syntax'' [] None None
          [Element ''int'' [] None None
             [Element ''range'' [(''minInclusive'', ''1''), (''maxInclusive'', ''10'')]
                None None []]]]"

text \<open>A list of \<open>int\<close>, the range on the list element.\<close>

definition int_list_param :: element where
  "int_list_param =
     Element ''parameter'' [(''name'', ''Ports'')] None None
       [Element ''syntax'' [] None None
          [Element ''list'' [] None None
             [Element ''range'' [(''minInclusive'', ''1''), (''maxInclusive'', ''10'')]
                None None []],
           Element ''int'' [] None None []]]"

text \<open>The same syntax without the list, the range on the \<open>int\<close> element.\<close>

definition int_param :: element where
  "int_param =
     Element ''parameter'' [(''name'', ''Port'')] None None
       [Element ''syntax'' [] None None
          [Element ''int'' [] None None
             [Element ''range'' [(''minInclusive'', ''1''), (''maxInclusive'', ''10'')]
                None None []]]]"

text \<open>A parameter whose embedded description is empty.\<close>

definition blank_param :: element where
  "blank_param =
     Element ''parameter'' [(''name'', ''Blank'')] None None
       [Element ''description'' [] None None []]"

text \<open>A parameter with an embedded description, a template and a reference.\<close>

definition alias_param :: element where
  "alias_param =
     Element ''parameter'' [(''name'', ''Alias''), (''template'', ''Alias''), (''ref'', ''R'')]
       None None
       [Element ''description'' [] (Some ''The alias'') None []]"

text \<open>A parameter whose type is a reference to a data type that the table does not define.\<close>

definition typed_param :: element where
  "typed_param =
     Element ''parameter'' [(''name'', ''Address'')] None None
       [Element ''syntax'' [] None None
          [Element ''dataType'' [(''ref'', ''IPAddress'')] None None []]]"

text \<open>A reference table with one entry.\<close>

definition alias_references :: "string \<rightharpoonup> string" where
  "alias_references = [''R'' \<mapsto> ''Device.Other.Alias'']"

section \<open>Properties of the string helpers\<close>

lemma replace_space_filter: "replace '' '' '''' s = filter (\<lambda>c. c \<noteq> CHR '' '') s"
  by (induction s) auto

lemma lower_upper_disjoint:
  "d \<in> set ''abcdefghijklmnopqrstuvwxyz'' \<Longrightarrow> d \<notin> set ''ABCDEFGHIJKLMNOPQRSTUVWXYZ''"
  by auto

lemma lower_char_cases:
  "(is_upper c \<and> lower_char c \<in> set ''abcdefghijklmnopqrstuvwxyz'') \<or>
   (\<not> is_upper c \<and> lower_char c = c)"
proof (cases "map_of (zip ''ABCDEFGHIJKLMNOPQRSTUVWXYZ'' ''abcdefghijklmnopqrstuvwxyz'') c")
  case None
  then have "c \<notin> fst ` set (zip ''ABCDEFGHIJKLMNOPQRSTUVWXYZ'' ''abcdefghijklmnopqrstuvwxyz'')"
    by (rule iffD1[OF map_of_eq_None_iff])
  then have "c \<notin> set (map fst (zip ''ABCDEFGHIJKLMNOPQRSTUVWXYZ'' ''abcdefghijklmnopqrstuvwxyz''))"
    by (simp only: set_map not_False_eq_True)
  moreover have "map fst (zip ''ABCDEFGHIJKLMNOPQRSTUVWXYZ'' ''abcdefghijklmnopqrstuvwxyz'') = ''ABCDEFGHIJKLMNOPQRSTUVWXYZ''"
    by (rule map_fst_zip) simp
  ultimately have "\<not> is_upper c" by (metis is_upper_def)
  moreover have "lower_char c = c" unfolding lower_char_def None option.case by (rule refl)
  ultimately show ?thesis by blast
next
  case (Some d)
  then have m: "(c, d) \<in> set (zip ''ABCDEFGHIJKLMNOPQRSTUVWXYZ'' ''abcdefghijklmnopqrstuvwxyz'')"
    by (rule map_of_SomeD)
  have "is_upper c" unfolding is_upper_def using m by (rule set_zip_leftD)
  moreover have "d \<in> set ''abcdefghijklmnopqrstuvwxyz''" using m by (rule set_zip_rightD)
  moreover have "lower_char c = d" unfolding lower_char_def Some option.case by (rule refl)
  ultimately show ?thesis by blast
qed

lemma lower_char_fixed: "\<not> is_upper c \<Longrightarrow> lower_char c = c"
  using lower_char_cases[of c] by blast

lemma lower_char_not_upper: "\<not> is_upper (lower_char c)"
  using lower_char_cases[of c] lower_upper_disjoint[of "lower_char c"]
  unfolding is_upper_def by metis

lemma lower_char_idem: "lower_char (lower_char c) = lower_char c"
  by (rule lower_char_fixed) (rule lower_char_not_upper)

lemma rstrip_chars_keeps_head:
  assumes "s \<noteq> []" "hd s \<notin> set cs"
  shows "rstrip_chars cs s \<noteq> [] \<and> hd (rstrip_chars cs s) = hd s"
proof -
  obtain x xs where s: "s = x # xs" using assms(1) by (cases s) auto
  have "rev s = rev xs @ [x]" by (simp add: s)
  then have "dropWhile (\<lambda>c. c \<in> set cs) (rev s) =
      (if \<forall>y\<in>set (rev xs). y \<in> set cs then [x] else dropWhile (\<lambda>c. c \<in> set cs) (rev xs) @ [x])"
    using assms(2) by (simp add: dropWhile_append s)
  then show ?thesis by (auto simp: rstrip_chars_def s)
qed

lemma lstrip_chars_head: "lstrip_chars cs s \<noteq> [] \<Longrightarrow> hd (lstrip_chars cs s) \<notin> set cs"
  unfolding lstrip_chars_def by (metis hd_dropWhile)

lemma rstrip_chars_last: "rstrip_chars cs s \<noteq> [] \<Longrightarrow> last (rstrip_chars cs s) \<notin> set cs"
  unfolding rstrip_chars_def by (metis hd_dropWhile last_rev rev_is_Nil_conv)

lemma strip_chars_ends:
  "strip_chars cs s \<noteq> [] \<Longrightarrow>
   hd (strip_chars cs s) \<notin> set cs \<and> last (strip_chars cs s) \<notin> set cs"
  unfolding strip_chars_def
  by (metis lstrip_chars_head rstrip_chars_keeps_head rstrip_chars_last rev.simps(1)
        dropWhile.simps(1) rstrip_chars_def)

lemma lstrip_chars_id: "s = [] \<or> hd s \<notin> set cs \<Longrightarrow> lstrip_chars cs s = s"
  by (cases s) (auto simp: lstrip_chars_def)

lemma rstrip_chars_id: "s = [] \<or> last s \<notin> set cs \<Longrightarrow> rstrip_chars cs s = s"
  by (cases s rule: rev_cases) (auto simp: rstrip_chars_def)

lemma strip_chars_idem: "strip_chars cs (strip_chars cs s) = strip_chars cs s"
proof -
  let ?q = "strip_chars cs s"
  have e: "?q = [] \<or> (hd ?q \<notin> set cs \<and> last ?q \<notin> set cs)"
    using strip_chars_ends[of cs s] by blast
  have "lstrip_chars cs ?q = ?q" using e by (intro lstrip_chars_id) blast
  moreover have "rstrip_chars cs ?q = ?q" using e by (intro rstrip_chars_id) blast
  ultimately show ?thesis by (simp add: strip_chars_def)
qed

lemma strip_chars_decomp:
  "\<exists>pre suf. set pre \<subseteq> set cs \<and> set suf \<subseteq> set cs \<and> pre @ strip_chars cs s @ suf = s"
proof -
  let ?P = "\<lambda>c. c \<in> set cs"
  let ?t = "lstrip_chars cs s"
  have 1: "takeWhile ?P s @ ?t = s" by (simp add: lstrip_chars_def)
  have "rev (takeWhile ?P (rev ?t) @ dropWhile ?P (rev ?t)) = ?t" by simp
  then have 2: "rstrip_chars cs ?t @ rev (takeWhile ?P (rev ?t)) = ?t"
    unfolding rstrip_chars_def rev_append by simp
  have 3: "set (takeWhile ?P s) \<subseteq> set cs" by (auto dest: set_takeWhileD)
  have 4: "set (rev (takeWhile ?P (rev ?t))) \<subseteq> set cs" by (auto dest: set_takeWhileD)
  show ?thesis
    apply (rule exI[of _ "takeWhile ?P s"], rule exI[of _ "rev (takeWhile ?P (rev ?t))"])
    using 1 2 3 4 by (simp add: strip_chars_def)
qed

lemma set_strip_chars: "set (strip_chars cs s) \<subseteq> set s"
  using strip_chars_decomp[of cs s] by (metis Un_upper1 Un_upper2 set_append subset_trans)

lemma normalize_path_eq:
  "normalize_path p = strip_chars ''.'' (filter (\<lambda>c. c \<noteq> CHR '' '') (map lower_char p))"
  by (simp add: normalize_path_def replace_space_filter lower_def)

lemma normalize_path_chars:
  "c \<in> set (normalize_path p) \<Longrightarrow> c \<noteq> CHR '' '' \<and> (\<exists>d \<in> set p. c = lower_char d)"
  using set_strip_chars[of "''.''" "filter (\<lambda>c. c \<noteq> CHR '' '') (map lower_char p)"]
  by (auto simp: normalize_path_eq)

lemmas eval_normalize =
  normalize_path_def lower_def lower_char_def strip_chars_def lstrip_chars_def rstrip_chars_def

section \<open>Claims about the path normalizer\<close>

text \<open>
  C8, as amended.  For every string, \<open>normalize_path\<close> returns a string (the model has no
  error branch because \<open>lower\<close>, \<open>replace\<close> and \<open>strip\<close> raise on no string) with no upper-case
  letter and no space character, which neither starts nor ends with a dot, and which is
  the lower-cased input without its space characters, up to dots removed at both ends.
  The empty string is mapped to the empty string.  Only the space character is removed:
  other white space, such as a tab, stays.
\<close>

theorem normalize_path_spec:
  "(\<forall>c \<in> set (normalize_path p). \<not> is_upper c \<and> c \<noteq> CHR '' '') \<and>
   (normalize_path p \<noteq> [] \<longrightarrow>
      hd (normalize_path p) \<noteq> CHR ''.'' \<and> last (normalize_path p) \<noteq> CHR ''.'') \<and>
   (\<exists>pre suf. set pre \<subseteq> {CHR ''.''} \<and> set suf \<subseteq> {CHR ''.''} \<and>
      pre @ normalize_path p @ suf = filter (\<lambda>c. c \<noteq> CHR '' '') (map lower_char p)) \<and>
   normalize_path [] = []"
proof (intro conjI ballI impI)
  fix c assume "c \<in> set (normalize_path p)"
  then obtain d where "c = lower_char d" using normalize_path_chars by blast
  then show "\<not> is_upper c" by (simp add: lower_char_not_upper)
next
  fix c assume "c \<in> set (normalize_path p)"
  then show "c \<noteq> CHR '' ''" using normalize_path_chars by blast
next
  assume "normalize_path p \<noteq> []"
  then show "hd (normalize_path p) \<noteq> CHR ''.''"
    using strip_chars_ends[of "''.''" "filter (\<lambda>c. c \<noteq> CHR '' '') (map lower_char p)"]
    by (simp add: normalize_path_eq)
next
  assume "normalize_path p \<noteq> []"
  then show "last (normalize_path p) \<noteq> CHR ''.''"
    using strip_chars_ends[of "''.''" "filter (\<lambda>c. c \<noteq> CHR '' '') (map lower_char p)"]
    by (simp add: normalize_path_eq)
next
  show "\<exists>pre suf. set pre \<subseteq> {CHR ''.''} \<and> set suf \<subseteq> {CHR ''.''} \<and>
      pre @ normalize_path p @ suf = filter (\<lambda>c. c \<noteq> CHR '' '') (map lower_char p)"
    using strip_chars_decomp[of "''.''" "filter (\<lambda>c. c \<noteq> CHR '' '') (map lower_char p)"]
    by (simp add: normalize_path_eq)
next
  show "normalize_path [] = []" by (simp add: eval_normalize)
qed

theorem normalize_path_spec_witness:
  "normalize_path ''.Device. WiFi.'' \<noteq> [] \<and>
   hd (normalize_path ''.Device. WiFi.'') \<noteq> CHR ''.'' \<and>
   last (normalize_path ''.Device. WiFi.'') \<noteq> CHR ''.'' \<and>
   CHR '' '' \<notin> set (normalize_path ''.Device. WiFi.'')"
proof -
  have ne: "normalize_path ''.Device. WiFi.'' \<noteq> []" by (simp add: eval_normalize)
  show ?thesis using ne normalize_path_spec[of "''.Device. WiFi.''"] by blast
qed

text \<open>
  C8, as stated, fails: a tab is white space, and it is still in the normalized path.
\<close>

theorem normalize_path_tab_counterexample:
  "is_space (CHR 0x09) \<and> CHR 0x09 \<in> set (normalize_path [CHR ''A'', CHR 0x09, CHR ''b''])"
  by (simp add: is_space_def eval_normalize)

text \<open>
  C10.  Path normalization is idempotent: normalizing a normalized path changes nothing.
\<close>

theorem normalize_path_idempotent: "normalize_path (normalize_path p) = normalize_path p"
proof -
  let ?q = "normalize_path p"
  have a: "map lower_char ?q = ?q"
    by (rule map_idI) (auto dest!: normalize_path_chars simp: lower_char_idem)
  have b: "filter (\<lambda>c. c \<noteq> CHR '' '') ?q = ?q"
    by (rule filter_True) (auto dest!: normalize_path_chars)
  have "normalize_path ?q = strip_chars ''.'' ?q"
    by (subst normalize_path_eq) (simp add: a b)
  also have "\<dots> = ?q" by (simp add: normalize_path_eq strip_chars_idem)
  finally show ?thesis .
qed

theorem normalize_path_idempotent_witness:
  "normalize_path (normalize_path '' .Device. WiFi.Radio.{i}. '') = ''device.wifi.radio.{i}''"
proof -
  have "normalize_path '' .Device. WiFi.Radio.{i}. '' = ''device.wifi.radio.{i}''"
    by (simp add: eval_normalize)
  then show ?thesis using normalize_path_idempotent[of "'' .Device. WiFi.Radio.{i}. ''"] by simp
qed

section \<open>Claims about the type signature renderer\<close>

lemmas eval_xml = lower_def lower_char_def last_split_def findall_def find_child_def get_def
  get_default_def findall_desc_def find_desc_def bounds_def size_ranges_of_def size_range_str_of_def
  enum_values_of_def extract_type_info_def Let_def

lemma last_split_lower_tag:
  "last_split CHR ''}'' (lower t) = ''enumeration'' \<Longrightarrow> t \<noteq> ''size'' \<and> t \<noteq> ''range''"
  by (auto simp: last_split_def lower_def lower_char_def)

lemma pure_enum_no_sizes:
  assumes "list_all (\<lambda>child. last_split CHR ''}'' (lower (tag child)) = ''enumeration'') (children e)"
  shows "size_ranges_of e = []"
proof -
  have a: "\<And>c. c \<in> set (children e) \<Longrightarrow> tag c \<noteq> ''size'' \<and> tag c \<noteq> ''range''"
    using assms last_split_lower_tag by (auto simp: list_all_iff)
  have "findall e ''size'' = []" using a by (auto simp: findall_def filter_empty_conv)
  moreover have "find_child e ''range'' = None" using a by (auto simp: find_child_def find_None_iff)
  ultimately show ?thesis by (simp add: size_ranges_of_def)
qed

text \<open>
  C6.  Enum collapse in \<open>extract_type_info\<close>.  A string primitive all of whose children
  are enumerations renders as the bare kind \<open>string\<close>, the enumeration values suppressed.
  A string primitive with at least one enumeration value and at least one child that is
  not an enumeration renders with kind \<open>enum\<close>: the size and range constraints, when there
  are any, in parentheses, then the enumeration values in declaration order, joined by
  commas, in square brackets.
\<close>

theorem enum_collapse:
  "(lower (last_split CHR ''}'' (lower (tag e))) = ''string'' \<and>
    list_all (\<lambda>child. last_split CHR ''}'' (lower (tag child)) = ''enumeration'') (children e)
      \<longrightarrow> extract_type_info e = ''string'') \<and>
   (lower (last_split CHR ''}'' (lower (tag e))) = ''string'' \<and>
    (\<exists>child \<in> set (children e). last_split CHR ''}'' (lower (tag child)) \<noteq> ''enumeration'') \<and>
    List.map_filter (\<lambda>c. get c ''value'') (filter (\<lambda>c. tag c = ''enumeration'') (children e)) \<noteq> []
      \<longrightarrow> extract_type_info e =
            ''enum'' @
            (if size_ranges_of e \<noteq> [] then ''('' @ join '', '' (size_ranges_of e) @ '')'' else []) @
            ''['' @ join '',''
               (List.map_filter (\<lambda>c. get c ''value'') (filter (\<lambda>c. tag c = ''enumeration'') (children e)))
            @ '']'')"
proof (intro conjI impI)
  assume h: "lower (last_split CHR ''}'' (lower (tag e))) = ''string'' \<and>
    list_all (\<lambda>child. last_split CHR ''}'' (lower (tag child)) = ''enumeration'') (children e)"
  then have "size_ranges_of e = []" using pure_enum_no_sizes by blast
  then show "extract_type_info e = ''string''"
    using h by (simp add: extract_type_info_def Let_def)
next
  assume h: "lower (last_split CHR ''}'' (lower (tag e))) = ''string'' \<and>
    (\<exists>child \<in> set (children e). last_split CHR ''}'' (lower (tag child)) \<noteq> ''enumeration'') \<and>
    List.map_filter (\<lambda>c. get c ''value'') (filter (\<lambda>c. tag c = ''enumeration'') (children e)) \<noteq> []"
  then have n: "\<not> list_all (\<lambda>child. last_split CHR ''}'' (lower (tag child)) = ''enumeration'') (children e)"
    by (auto simp: list_all_iff)
  have ev: "enum_values_of e \<noteq> []" using h by (simp add: enum_values_of_def findall_def)
  show "extract_type_info e =
            ''enum'' @
            (if size_ranges_of e \<noteq> [] then ''('' @ join '', '' (size_ranges_of e) @ '')'' else []) @
            ''['' @ join '',''
               (List.map_filter (\<lambda>c. get c ''value'') (filter (\<lambda>c. tag c = ''enumeration'') (children e)))
            @ '']''"
    using h n ev
    by (simp add: extract_type_info_def Let_def size_range_str_of_def enum_values_of_def findall_def)
qed

theorem enum_collapse_witness:
  "extract_type_info
     (Element ''string'' [] None None
        [Element ''enumeration'' [(''value'', ''a'')] None None [],
         Element ''enumeration'' [(''value'', ''b'')] None None []]) = ''string'' \<and>
   extract_type_info
     (Element ''string'' [] None None
        [Element ''size'' [(''maxLength'', ''64'')] None None [],
         Element ''enumeration'' [(''value'', ''a'')] None None [],
         Element ''enumeration'' [(''value'', ''b'')] None None []]) = ''enum(64)[a,b]''"
proof -
  let ?e1 = "Element ''string'' [] None None
        [Element ''enumeration'' [(''value'', ''a'')] None None [],
         Element ''enumeration'' [(''value'', ''b'')] None None []]"
  let ?e2 = "Element ''string'' [] None None
        [Element ''size'' [(''maxLength'', ''64'')] None None [],
         Element ''enumeration'' [(''value'', ''a'')] None None [],
         Element ''enumeration'' [(''value'', ''b'')] None None []]"
  have t1: "lower (last_split CHR ''}'' (lower (tag ?e1))) = ''string''"
    by (simp add: eval_xml)
  have c1: "list_all (\<lambda>child. last_split CHR ''}'' (lower (tag child)) = ''enumeration'') (children ?e1)"
    by (simp add: eval_xml)
  have t2: "lower (last_split CHR ''}'' (lower (tag ?e2))) = ''string''"
    by (simp add: eval_xml)
  have c2: "\<exists>child \<in> set (children ?e2). last_split CHR ''}'' (lower (tag child)) \<noteq> ''enumeration''"
    by (simp add: eval_xml)
  have v2: "List.map_filter (\<lambda>c. get c ''value'') (filter (\<lambda>c. tag c = ''enumeration'') (children ?e2)) = [''a'', ''b'']"
    by (simp add: eval_xml)
  have s2: "size_ranges_of ?e2 = [''64'']"
    by (simp add: eval_xml)
  have r1: "extract_type_info ?e1 = ''string''"
    using enum_collapse[of ?e1] t1 c1 by blast
  have r2: "extract_type_info ?e2 = ''enum(64)[a,b]''"
    using enum_collapse[of ?e2] t2 c2 v2 s2 by simp
  show ?thesis using r1 r2 by blast
qed

section \<open>Claims about the data-type chain resolver\<close>

lemma find_SomeD: "List.find P xs = Some x \<Longrightarrow> x \<in> set xs \<and> P x"
  by (induction xs) (auto split: if_splits)

lemma set_map_filter_iff: "y \<in> set (List.map_filter f xs) \<longleftrightarrow> (\<exists>x \<in> set xs. f x = Some y)"
  by (induction xs) (auto simp: map_filter_simps split: option.splits)

lemma find_datatype_name:
  "find_datatype xml_root b = Some p \<Longrightarrow> b \<in> datatype_names xml_root"
  unfolding find_datatype_def datatype_names_def set_map_filter_iff
  by (blast dest: find_SomeD)

lemma card_unvisited_less:
  "b \<in> datatype_names xml_root \<Longrightarrow> b \<notin> visited \<Longrightarrow>
   card (datatype_names xml_root - insert b visited) < card (datatype_names xml_root - visited)"
  by (rule psubset_card_mono) (auto simp: datatype_names_def)

text \<open>More frames than the table has names outside the visited set are never used up.\<close>

lemma walk_frames_enough:
  "card (datatype_names xml_root - visited) < frames \<Longrightarrow>
   \<exists>r. walk_base_chain frames elem xml_root visited = Inr r"
proof (induction frames arbitrary: elem visited)
  case 0
  then show ?case by simp
next
  case (Suc frames)
  show ?case
  proof (cases "local_type_info elem")
    case (Some t)
    then show ?thesis by simp
  next
    case None
    note lt = None
    show ?thesis
    proof (cases "get elem ''base''")
      case None
      then show ?thesis using lt by simp
    next
      case (Some base)
      note b = Some
      show ?thesis
      proof (cases "base \<noteq> [] \<and> base \<notin> visited")
        case False
        then show ?thesis using lt b by auto
      next
        case True
        show ?thesis
        proof (cases "find_datatype xml_root base")
          case None
          then show ?thesis using lt b True by simp
        next
          case (Some parent_elem)
          have "card (datatype_names xml_root - insert base visited)
                  < card (datatype_names xml_root - visited)"
            using Some True by (intro card_unvisited_less find_datatype_name) auto
          then have "card (datatype_names xml_root - insert base visited) < frames"
            using Suc.prems by simp
          then have "\<exists>r. walk_base_chain frames parent_elem xml_root (insert base visited) = Inr r"
            by (rule Suc.IH)
          then show ?thesis using lt b True Some by simp
        qed
      qed
    qed
  qed
qed

text \<open>A walk that returns with some frames returns the same with more.\<close>

lemma walk_more_frames:
  "walk_base_chain frames elem xml_root visited = Inr r \<Longrightarrow> frames \<le> frames' \<Longrightarrow>
   walk_base_chain frames' elem xml_root visited = Inr r"
proof (induction frames arbitrary: frames' elem visited)
  case 0
  then show ?case by simp
next
  case (Suc frames)
  from Suc.prems(2) obtain k where k: "frames' = Suc k" and le: "frames \<le> k"
    by (cases frames') auto
  show ?case
    using Suc.prems(1) Suc.IH[OF _ le] unfolding k
    by (auto split: option.splits if_splits)
qed

lemma base_links_found: "base_links xml_root (n # rest) \<Longrightarrow> \<exists>dt. find_datatype xml_root n = Some dt"
  by (cases rest) (auto split: option.splits)

lemma last_base_Cons: "last_base xml_root (n # m # rest) = last_base xml_root (m # rest)"
  by (simp add: last_base_def)

lemma walk_acyclic:
  "base_links xml_root (n # rest) \<Longrightarrow> distinct (n # rest) \<Longrightarrow> set rest \<inter> visited = {} \<Longrightarrow>
   (case last_base xml_root (n # rest) of
      None \<Rightarrow> True | Some b \<Rightarrow> b = [] \<or> find_datatype xml_root b = None) \<Longrightarrow>
   find_datatype xml_root n = Some dt \<Longrightarrow>
   \<exists>r. walk_base_chain (Suc (length rest)) dt xml_root visited = Inr r"
proof (induction rest arbitrary: n dt visited)
  case Nil
  then show ?case
    by (auto simp: last_base_def split: option.splits)
next
  case (Cons m rest)
  from Cons.prems(1,5) have b: "get dt ''base'' = Some m" "m \<noteq> []" and links: "base_links xml_root (m # rest)"
    by auto
  from links obtain dt' where f: "find_datatype xml_root m = Some dt'"
    using base_links_found by blast
  have nv: "m \<notin> visited" using Cons.prems(3) by auto
  have "\<exists>r. walk_base_chain (Suc (length rest)) dt' xml_root (insert m visited) = Inr r"
  proof (rule Cons.IH[OF links _ _ _ f])
    show "distinct (m # rest)" using Cons.prems(2) by simp
    show "set rest \<inter> insert m visited = {}" using Cons.prems(2,3) by auto
    show "case last_base xml_root (m # rest) of
            None \<Rightarrow> True | Some b \<Rightarrow> b = [] \<or> find_datatype xml_root b = None"
      using Cons.prems(4) by (simp add: last_base_Cons)
  qed
  then show ?case
    using b f nv by (cases "local_type_info dt") auto
qed

lemma walk_raises:
  "base_links xml_root (n # rest) \<Longrightarrow> distinct (n # rest) \<Longrightarrow> set rest \<inter> visited = {} \<Longrightarrow>
   no_local_type xml_root (butlast (n # rest)) \<Longrightarrow>
   find_datatype xml_root n = Some dt \<Longrightarrow> frames \<le> length rest \<Longrightarrow>
   walk_base_chain frames dt xml_root visited = Inl RecursionError"
proof (induction rest arbitrary: n dt visited frames)
  case Nil
  then show ?case by simp
next
  case (Cons m rest)
  show ?case
  proof (cases frames)
    case 0
    then show ?thesis by simp
  next
    case (Suc k)
    from Cons.prems(1,5) have b: "get dt ''base'' = Some m" "m \<noteq> []"
      and links: "base_links xml_root (m # rest)"
      by auto
    from links obtain dt' where f: "find_datatype xml_root m = Some dt'"
      using base_links_found by blast
    have nv: "m \<notin> visited" using Cons.prems(3) by auto
    have li: "local_type_info dt = None" using Cons.prems(4,5) by (simp add: no_local_type_def)
    have "walk_base_chain k dt' xml_root (insert m visited) = Inl RecursionError"
    proof (rule Cons.IH[OF links _ _ _ f])
      show "distinct (m # rest)" using Cons.prems(2) by simp
      show "set rest \<inter> insert m visited = {}" using Cons.prems(2,3) by auto
      show "no_local_type xml_root (butlast (m # rest))"
        using Cons.prems(4) by (simp add: no_local_type_def)
      show "k \<le> length rest" using Cons.prems(6) Suc by simp
    qed
    then show ?thesis using b f nv li Suc by simp
  qed
qed

lemma walk_cyclic:
  "base_links xml_root (n # rest) \<Longrightarrow> distinct (n # rest) \<Longrightarrow> set rest \<inter> visited = {} \<Longrightarrow>
   n \<in> visited \<Longrightarrow>
   last_base xml_root (n # rest) = Some b \<Longrightarrow> b \<in> visited \<union> set rest \<Longrightarrow>
   no_local_type xml_root (n # rest) \<Longrightarrow>
   find_datatype xml_root n = Some dt \<Longrightarrow>
   walk_base_chain (Suc (length rest)) dt xml_root visited = Inr None"
proof (induction rest arbitrary: n dt visited)
  case Nil
  then show ?case
    by (auto simp: last_base_def no_local_type_def split: option.splits)
next
  case (Cons m rest)
  from Cons.prems(1,8) have bm: "get dt ''base'' = Some m" "m \<noteq> []" and links: "base_links xml_root (m # rest)"
    by auto
  from links obtain dt' where f: "find_datatype xml_root m = Some dt'"
    using base_links_found by blast
  have nv: "m \<notin> visited" using Cons.prems(3) by auto
  have li: "local_type_info dt = None" using Cons.prems(7,8) by (simp add: no_local_type_def)
  have "walk_base_chain (Suc (length rest)) dt' xml_root (insert m visited) = Inr None"
  proof (rule Cons.IH[OF links _ _ _ _ _ _ f])
    show "distinct (m # rest)" using Cons.prems(2) by simp
    show "set rest \<inter> insert m visited = {}" using Cons.prems(2,3) by auto
    show "m \<in> insert m visited" by simp
    show "last_base xml_root (m # rest) = Some b" using Cons.prems(5) by (simp add: last_base_Cons)
    show "b \<in> insert m visited \<union> set rest" using Cons.prems(6) by auto
    show "no_local_type xml_root (m # rest)" using Cons.prems(7) by (simp add: no_local_type_def)
  qed
  then show ?case
    using bm f nv li by simp
qed

lemma local_none_first_none: "local_type_info dt = None \<Longrightarrow> first_type_info (children dt) = None"
  by (auto simp: local_type_info_def split: option.splits)

lemma resolve_of_walk:
  "find_datatype xml_root name = Some dt \<Longrightarrow>
   resolve_datatype_reference frames name xml_root None =
     (case walk_base_chain frames dt xml_root {name} of
        Inl e \<Rightarrow> Inl e
      | Inr (Some resolved_type) \<Rightarrow>
          if resolved_type \<noteq> [] then Inr (Some resolved_type)
          else Inr (first_type_info (children dt))
      | Inr None \<Rightarrow> Inr (first_type_info (children dt)))"
  by (simp add: resolve_datatype_reference_def)

lemma resolve_of_walk_Inr:
  "find_datatype xml_root name = Some dt \<Longrightarrow> walk_base_chain frames dt xml_root {name} = Inr w \<Longrightarrow>
   resolve_datatype_reference frames name xml_root None =
     Inr (case w of
            Some resolved_type \<Rightarrow>
              if resolved_type \<noteq> [] then Some resolved_type else first_type_info (children dt)
          | None \<Rightarrow> first_type_info (children dt))"
  by (cases w) (simp_all add: resolve_of_walk)

lemma resolve_acyclic:
  assumes "acyclic_base_chain xml_root ns" and "length ns \<le> frames"
  shows "\<exists>r. resolve_datatype_reference (length ns) (hd ns) xml_root None = Inr r \<and>
             resolve_datatype_reference frames (hd ns) xml_root None = Inr r"
proof -
  from assms(1) obtain n rest where ns: "ns = n # rest"
    by (cases ns) (auto simp: acyclic_base_chain_def)
  have len: "length ns = Suc (length rest)" and hd: "hd ns = n" by (simp_all add: ns)
  from assms(1) have links: "base_links xml_root (n # rest)" and d: "distinct (n # rest)"
    and e: "case last_base xml_root (n # rest) of
              None \<Rightarrow> True | Some b \<Rightarrow> b = [] \<or> find_datatype xml_root b = None"
    unfolding ns acyclic_base_chain_def by blast+
  from links obtain dt where f: "find_datatype xml_root n = Some dt"
    using base_links_found by blast
  have "\<exists>r. walk_base_chain (Suc (length rest)) dt xml_root {n} = Inr r"
    using links d _ e f by (rule walk_acyclic) (use d in auto)
  then obtain w where w: "walk_base_chain (Suc (length rest)) dt xml_root {n} = Inr w"
    by blast
  have le: "Suc (length rest) \<le> frames" using assms(2) len by simp
  have w': "walk_base_chain frames dt xml_root {n} = Inr w"
    using w le by (rule walk_more_frames)
  show ?thesis
    unfolding len hd
    using resolve_of_walk_Inr[OF f w] resolve_of_walk_Inr[OF f w'] by blast
qed

lemma resolve_raises:
  assumes "acyclic_base_chain xml_root ns \<or> cyclic_base_chain xml_root ns"
    and "no_local_type xml_root (butlast ns)" and "frames < length ns"
  shows "resolve_datatype_reference frames (hd ns) xml_root None = Inl RecursionError"
proof -
  from assms(1) obtain n rest where ns: "ns = n # rest"
    by (cases ns) (auto simp: acyclic_base_chain_def cyclic_base_chain_def)
  have hd: "hd ns = n" by (simp add: ns)
  from assms(1) have links: "base_links xml_root (n # rest)" and d: "distinct (n # rest)"
    unfolding ns acyclic_base_chain_def cyclic_base_chain_def by blast+
  from links obtain dt where f: "find_datatype xml_root n = Some dt"
    using base_links_found by blast
  have nl: "no_local_type xml_root (butlast (n # rest))" using assms(2) unfolding ns .
  have le: "frames \<le> length rest" using assms(3) by (simp add: ns)
  have "walk_base_chain frames dt xml_root {n} = Inl RecursionError"
    using links d _ nl f le by (rule walk_raises) (use d in auto)
  then show ?thesis unfolding hd by (simp add: resolve_of_walk[OF f])
qed

lemma resolve_cyclic:
  assumes "cyclic_base_chain xml_root ns" and "no_local_type xml_root ns" and "length ns \<le> frames"
  shows "resolve_datatype_reference frames (hd ns) xml_root None = Inr None"
proof -
  from assms(1) obtain n rest where ns: "ns = n # rest"
    by (cases ns) (auto simp: cyclic_base_chain_def)
  have hd: "hd ns = n" by (simp add: ns)
  from assms(1) obtain b where b: "last_base xml_root (n # rest) = Some b"
    and b': "b \<in> {n} \<union> set rest"
    unfolding ns cyclic_base_chain_def by (auto split: option.splits)
  from assms(1) have links: "base_links xml_root (n # rest)" and d: "distinct (n # rest)"
    unfolding ns cyclic_base_chain_def by blast+
  from links obtain dt where f: "find_datatype xml_root n = Some dt"
    using base_links_found by blast
  have nl: "no_local_type xml_root (n # rest)" using assms(2) unfolding ns .
  have "walk_base_chain (Suc (length rest)) dt xml_root {n} = Inr None"
    using links d _ _ b b' nl f by (rule walk_cyclic) (use d in auto)
  moreover have "Suc (length rest) \<le> frames" using assms(3) by (simp add: ns)
  ultimately have w: "walk_base_chain frames dt xml_root {n} = Inr None"
    by (rule walk_more_frames)
  have "local_type_info dt = None" using nl f by (simp add: no_local_type_def)
  then have "first_type_info (children dt) = None" by (rule local_none_first_none)
  then show ?thesis unfolding hd using resolve_of_walk_Inr[OF f w] by simp
qed

text \<open>The chain of \<open>n\<close> definitions is an acyclic base chain of depth \<open>n\<close> with no primitive.\<close>

lemma chain_name_inj: "chain_name j = chain_name k \<longleftrightarrow> j = k"
proof
  assume "chain_name j = chain_name k"
  then have "length (chain_name j) = length (chain_name k)" by simp
  then show "j = k" by (simp add: chain_name_def)
qed simp

lemma chain_name_nonempty: "chain_name k \<noteq> []"
  by (simp add: chain_name_def)

lemma deep_chain_datatypes:
  "findall_desc (deep_chain_doc n) ''dataType'' = map (chain_link n) [0..<n]"
proof -
  have "concat (map (\<lambda>c. c # descendants c) (map (chain_link n) ks)) = map (chain_link n) ks" for ks
    by (induction ks) (simp_all add: chain_link_def)
  then have "descendants (deep_chain_doc n) = map (chain_link n) [0..<n]"
    by (simp add: deep_chain_doc_def)
  moreover have "filter (\<lambda>c. tag c = ''dataType'') (map (chain_link n) ks) = map (chain_link n) ks" for ks
    by (induction ks) (simp_all add: chain_link_def)
  ultimately show ?thesis by (simp add: findall_desc_def)
qed

lemma find_chain_link:
  "k \<in> set ks \<Longrightarrow>
   List.find (\<lambda>dt. get dt ''name'' = Some (chain_name k)) (map (chain_link n) ks) =
     Some (chain_link n k)"
proof (induction ks)
  case Nil
  then show ?case by simp
next
  case (Cons j ks)
  show ?case
  proof (cases "j = k")
    case True
    then show ?thesis by (simp add: chain_link_def get_def)
  next
    case False
    then have "get (chain_link n j) ''name'' \<noteq> Some (chain_name k)"
      by (simp add: chain_link_def get_def chain_name_inj)
    moreover have "List.find (\<lambda>dt. get dt ''name'' = Some (chain_name k)) (map (chain_link n) ks) =
                     Some (chain_link n k)"
      using Cons.prems False by (intro Cons.IH) auto
    ultimately show ?thesis by simp
  qed
qed

lemma deep_chain_find:
  "k < n \<Longrightarrow> find_datatype (deep_chain_doc n) (chain_name k) = Some (chain_link n k)"
  unfolding find_datatype_def deep_chain_datatypes
  by (rule find_chain_link[where ks = "[0..<n]"]) auto

lemma chain_link_no_type: "local_type_info (chain_link n k) = None"
  by (simp add: local_type_info_def chain_link_def find_desc_def findall_def size_ranges_of_def
                find_child_def size_range_str_of_def)

lemma deep_chain_no_local_type: "no_local_type (deep_chain_doc n) ns"
proof -
  have "local_type_info dt = None" if "find_datatype (deep_chain_doc n) nm = Some dt" for nm dt
  proof -
    from that have "dt \<in> set (map (chain_link n) [0..<n])"
      unfolding find_datatype_def deep_chain_datatypes by (blast dest: find_SomeD)
    then show ?thesis by (auto simp: chain_link_no_type)
  qed
  then show ?thesis
    by (auto simp: no_local_type_def list_all_iff split: option.splits)
qed

lemma deep_chain_links:
  "k < n \<Longrightarrow> base_links (deep_chain_doc n) (map chain_name [k..<n])"
proof (induction "n - k" arbitrary: k)
  case 0
  then show ?case by simp
next
  case (Suc d)
  show ?case
  proof (cases "Suc k < n")
    case False
    then have "[k..<n] = [k]" using Suc.prems by (simp add: upt_conv_Cons)
    then show ?thesis using Suc.prems by (simp add: deep_chain_find)
  next
    case True
    then have u: "[k..<n] = k # Suc k # [Suc (Suc k)..<n]" by (simp add: upt_conv_Cons)
    have "base_links (deep_chain_doc n) (map chain_name [Suc k..<n])"
      using Suc.hyps(2) True by (intro Suc.hyps(1)) auto
    then have "base_links (deep_chain_doc n) (chain_name (Suc k) # map chain_name [Suc (Suc k)..<n])"
      using True by (simp add: upt_conv_Cons)
    then show ?thesis
      using True Suc.prems
      by (simp add: u deep_chain_find chain_link_def get_def chain_name_nonempty)
  qed
qed

lemma deep_chain_acyclic:
  assumes "0 < n"
  shows "acyclic_base_chain (deep_chain_doc n) (map chain_name [0..<n])"
proof -
  have ne: "map chain_name [0..<n] \<noteq> []" using assms by simp
  have d: "distinct (map chain_name [0..<n])"
    by (simp add: distinct_map inj_on_def chain_name_inj)
  have l: "last (map chain_name [0..<n]) = chain_name (n - 1)"
    using assms by (simp add: last_map)
  have "find_datatype (deep_chain_doc n) (chain_name (n - 1)) = Some (chain_link n (n - 1))"
    using assms by (intro deep_chain_find) simp
  then have "last_base (deep_chain_doc n) (map chain_name [0..<n]) = None"
    using assms by (simp add: last_base_def l chain_link_def get_def)
  then show ?thesis
    using ne d deep_chain_links[of 0 n] assms by (simp add: acyclic_base_chain_def)
qed

lemma deep_chain_raises:
  assumes "frames < n"
  shows "resolve_datatype_reference frames (chain_name 0) (deep_chain_doc n) None =
           Inl RecursionError"
proof -
  have n: "0 < n" using assms by simp
  have "resolve_datatype_reference frames (hd (map chain_name [0..<n])) (deep_chain_doc n) None =
          Inl RecursionError"
    using deep_chain_acyclic[OF n] deep_chain_no_local_type assms
    by (intro resolve_raises) auto
  moreover have "hd (map chain_name [0..<n]) = chain_name 0"
    using n by (simp add: hd_map)
  ultimately show ?thesis by simp
qed

text \<open>
  C3, as amended.  \<open>resolve_datatype_reference\<close> terminates on every definition table and
  every name, by returning or by raising \<open>RecursionError\<close>.  An unknown name gives null.
  The walk returns when the recursion limit admits more nested invocations than the table
  has names outside the visited set.  On an acyclic base chain of depth N the resolution
  returns within N nested invocations, whenever the limit admits N of them; on a cyclic
  chain none of whose definitions renders a type it returns null, whenever the limit
  admits as many invocations as the chain has names: the visited set, seeded with the
  starting name, stops the walk at the first name it has seen.  On a chain none of whose
  definitions but the last renders a type, and which is deeper than the limit admits, the
  resolution raises \<open>RecursionError\<close>.
\<close>

theorem resolve_datatype_reference_limit:
  "(find_datatype xml_root name = None \<longrightarrow>
      resolve_datatype_reference frames name xml_root None = Inr None) \<and>
   (card (datatype_names xml_root - visited) < frames \<longrightarrow>
      (\<exists>r. walk_base_chain frames elem xml_root visited = Inr r)) \<and>
   (acyclic_base_chain xml_root ns \<and> length ns \<le> frames \<longrightarrow>
      (\<exists>r. resolve_datatype_reference (length ns) (hd ns) xml_root None = Inr r \<and>
           resolve_datatype_reference frames (hd ns) xml_root None = Inr r)) \<and>
   (cyclic_base_chain xml_root ns \<and> no_local_type xml_root ns \<and> length ns \<le> frames \<longrightarrow>
      resolve_datatype_reference frames (hd ns) xml_root None = Inr None) \<and>
   ((acyclic_base_chain xml_root ns \<or> cyclic_base_chain xml_root ns) \<and>
    no_local_type xml_root (butlast ns) \<and> frames < length ns \<longrightarrow>
      resolve_datatype_reference frames (hd ns) xml_root None = Inl RecursionError)"
proof (intro conjI impI)
  assume "find_datatype xml_root name = None"
  then show "resolve_datatype_reference frames name xml_root None = Inr None"
    by (simp add: resolve_datatype_reference_def)
next
  assume "card (datatype_names xml_root - visited) < frames"
  then show "\<exists>r. walk_base_chain frames elem xml_root visited = Inr r"
    by (rule walk_frames_enough)
next
  assume "acyclic_base_chain xml_root ns \<and> length ns \<le> frames"
  then show "\<exists>r. resolve_datatype_reference (length ns) (hd ns) xml_root None = Inr r \<and>
           resolve_datatype_reference frames (hd ns) xml_root None = Inr r"
    using resolve_acyclic by blast
next
  assume "cyclic_base_chain xml_root ns \<and> no_local_type xml_root ns \<and> length ns \<le> frames"
  then show "resolve_datatype_reference frames (hd ns) xml_root None = Inr None"
    using resolve_cyclic by blast
next
  assume "(acyclic_base_chain xml_root ns \<or> cyclic_base_chain xml_root ns) \<and>
    no_local_type xml_root (butlast ns) \<and> frames < length ns"
  then show "resolve_datatype_reference frames (hd ns) xml_root None = Inl RecursionError"
    using resolve_raises by blast
qed

lemmas eval_docs = cyclic_doc_def chain_doc_def alias_A_def string64_def

lemmas eval_resolve = find_datatype_def datatype_names_def local_type_info_def
  acyclic_base_chain_def cyclic_base_chain_def no_local_type_def last_base_def
  resolve_datatype_reference_def

theorem resolve_datatype_reference_limit_witness:
  "resolve_datatype_reference 7 ''X'' cyclic_doc None = Inr None \<and>
   resolve_datatype_reference 7 ''A'' cyclic_doc None = Inr None \<and>
   resolve_datatype_reference 1 ''A'' cyclic_doc None = Inl RecursionError \<and>
   resolve_datatype_reference 2 ''A'' chain_doc None = Inr (Some ''string(64)'') \<and>
   resolve_datatype_reference 7 ''A'' chain_doc None = Inr (Some ''string(64)'')"
proof -
  have w1: "find_datatype cyclic_doc ''X'' = None"
    by (simp add: eval_docs eval_resolve eval_xml)
  have w2: "cyclic_base_chain cyclic_doc [''A'', ''B'']"
    by (simp add: eval_docs eval_resolve eval_xml)
  have w3: "no_local_type cyclic_doc [''A'', ''B'']"
    by (simp add: eval_docs eval_resolve eval_xml)
  have w3': "no_local_type cyclic_doc (butlast [''A'', ''B''])"
    by (simp add: eval_docs eval_resolve eval_xml)
  have w4: "acyclic_base_chain chain_doc [''A'', ''B'']"
    by (simp add: eval_docs eval_resolve eval_xml)
  have w5: "resolve_datatype_reference 2 ''A'' chain_doc None = Inr (Some ''string(64)'')"
    by (simp add: eval_docs eval_resolve eval_xml numeral_2_eq_2)
  have r1: "resolve_datatype_reference 7 ''X'' cyclic_doc None = Inr None"
    using resolve_datatype_reference_limit[where xml_root = cyclic_doc and name = "''X''"
            and frames = 7] w1 by blast
  have r2: "resolve_datatype_reference 7 ''A'' cyclic_doc None = Inr None"
    using resolve_datatype_reference_limit[where xml_root = cyclic_doc and ns = "[''A'', ''B'']"
            and frames = 7] w2 w3 by simp
  have r3: "resolve_datatype_reference 1 ''A'' cyclic_doc None = Inl RecursionError"
    using resolve_datatype_reference_limit[where xml_root = cyclic_doc and ns = "[''A'', ''B'']"
            and frames = 1] w2 w3' by simp
  have "\<exists>r. resolve_datatype_reference (length [''A'', ''B'']) (hd [''A'', ''B'']) chain_doc None = Inr r \<and>
             resolve_datatype_reference 7 (hd [''A'', ''B'']) chain_doc None = Inr r"
    using resolve_datatype_reference_limit[where xml_root = chain_doc and ns = "[''A'', ''B'']"
            and frames = 7] w4 by simp
  then obtain r where "resolve_datatype_reference 2 ''A'' chain_doc None = Inr r"
    and "resolve_datatype_reference 7 ''A'' chain_doc None = Inr r"
    by (auto simp: numeral_2_eq_2)
  then have r4: "resolve_datatype_reference 7 ''A'' chain_doc None = Inr (Some ''string(64)'')"
    using w5 by simp
  show ?thesis using r1 r2 r3 w5 r4 by blast
qed

text \<open>
  C3, as stated, fails: the default recursion limit of the interpreter is 1000, so it
  admits no more than 1000 nested invocations, and on an acyclic base chain of depth 1001
  the resolution raises \<open>RecursionError\<close>.
\<close>

theorem deep_chain_counterexample:
  "acyclic_base_chain (deep_chain_doc 1001) (map chain_name [0..<1001]) \<and>
   resolve_datatype_reference 1000 (chain_name 0) (deep_chain_doc 1001) None =
     Inl RecursionError"
proof
  show "acyclic_base_chain (deep_chain_doc 1001) (map chain_name [0..<1001])"
    by (rule deep_chain_acyclic) simp
  show "resolve_datatype_reference 1000 (chain_name 0) (deep_chain_doc 1001) None =
          Inl RecursionError"
    by (rule deep_chain_raises) simp
qed

section \<open>Claims about the template resolver\<close>

lemma extract_template_data_returns:
  "template_chain_ends_within frames templates_dict template_name \<Longrightarrow>
   \<exists>r. extract_template_data frames template_name templates_dict = Inr r"
proof (induction frames arbitrary: template_name)
  case 0
  then show ?case by simp
next
  case (Suc frames)
  show ?case
  proof (cases "templates_dict template_name")
    case None
    then show ?thesis by simp
  next
    case (Some t)
    show ?thesis
    proof (cases "t_template t = []")
      case True
      then show ?thesis using Some by simp
    next
      case False
      then have "template_chain_ends_within frames templates_dict (t_template t)"
        using Suc.prems Some by simp
      then obtain r where "extract_template_data frames (t_template t) templates_dict = Inr r"
        using Suc.IH by blast
      then show ?thesis using Some False by (cases r) (simp_all add: Let_def)
    qed
  qed
qed

lemma extract_template_data_raises:
  "\<not> template_chain_ends_within frames templates_dict template_name \<Longrightarrow>
   extract_template_data frames template_name templates_dict = Inl RecursionError"
proof (induction frames arbitrary: template_name)
  case 0
  then show ?case by simp
next
  case (Suc frames)
  from Suc.prems obtain t where t: "templates_dict template_name = Some t"
    and p: "t_template t \<noteq> []"
    and n: "\<not> template_chain_ends_within frames templates_dict (t_template t)"
    by (auto split: option.splits)
  from n have "extract_template_data frames (t_template t) templates_dict = Inl RecursionError"
    by (rule Suc.IH)
  then show ?case using t p by (simp add: Let_def)
qed

text \<open>Two templates that name each other as parent: the chain ends within no number of calls.\<close>

lemma mutual_parents_never_end:
  assumes "templates_dict a = Some ta" and "t_template ta = b" and "b \<noteq> []"
    and "templates_dict b = Some tb" and "t_template tb = a" and "a \<noteq> []"
  shows "\<not> template_chain_ends_within frames templates_dict a \<and>
         \<not> template_chain_ends_within frames templates_dict b"
  by (induction frames) (use assms in auto)

text \<open>
  C5, as amended.  Template chain resolution terminates for every template table, by
  returning or by raising \<open>RecursionError\<close>: the recursion depth is bounded by the recursion
  limit of the interpreter alone, and a second visit of a template name is not noticed.
  The resolution returns exactly when the parent chain ends (at a name missing from the
  table or at a template with no parent) within the invocations that the limit admits,
  and raises otherwise.  In particular, on a template whose parent chain forms a cycle (A
  has parent B, B has parent A) it does not return: it raises, whatever the limit.
\<close>

theorem extract_template_data_limit:
  "(template_chain_ends_within frames templates_dict template_name \<longrightarrow>
      (\<exists>r. extract_template_data frames template_name templates_dict = Inr r)) \<and>
   (\<not> template_chain_ends_within frames templates_dict template_name \<longrightarrow>
      extract_template_data frames template_name templates_dict = Inl RecursionError) \<and>
   (templates_dict a = Some ta \<and> t_template ta = b \<and> b \<noteq> [] \<and>
    templates_dict b = Some tb \<and> t_template tb = a \<and> a \<noteq> [] \<longrightarrow>
      extract_template_data frames a templates_dict = Inl RecursionError)"
proof (intro conjI impI)
  assume "template_chain_ends_within frames templates_dict template_name"
  then show "\<exists>r. extract_template_data frames template_name templates_dict = Inr r"
    by (rule extract_template_data_returns)
next
  assume "\<not> template_chain_ends_within frames templates_dict template_name"
  then show "extract_template_data frames template_name templates_dict = Inl RecursionError"
    by (rule extract_template_data_raises)
next
  assume h: "templates_dict a = Some ta \<and> t_template ta = b \<and> b \<noteq> [] \<and>
    templates_dict b = Some tb \<and> t_template tb = a \<and> a \<noteq> []"
  have "\<not> template_chain_ends_within frames templates_dict a"
    using mutual_parents_never_end[of templates_dict a ta b tb frames] h by blast
  then show "extract_template_data frames a templates_dict = Inl RecursionError"
    by (rule extract_template_data_raises)
qed

theorem extract_template_data_limit_witness:
  "extract_template_data 2 ''MyAlias'' alias_templates =
     Inr (Some \<lparr> td_description = ''A non-volatile handle'', td_data_type = ''string'',
                 td_default_value = ''cpe-1'' \<rparr>) \<and>
   extract_template_data 1 ''MyAlias'' alias_templates = Inl RecursionError \<and>
   extract_template_data 7 ''B'' cyclic_templates = Inl RecursionError"
proof -
  have e: "template_chain_ends_within 2 alias_templates ''MyAlias''"
    by (simp add: alias_templates_def numeral_2_eq_2)
  have n: "\<not> template_chain_ends_within 1 alias_templates ''MyAlias''"
    by (simp add: alias_templates_def)
  have v: "extract_template_data 2 ''MyAlias'' alias_templates =
     Inr (Some \<lparr> td_description = ''A non-volatile handle'', td_data_type = ''string'',
                 td_default_value = ''cpe-1'' \<rparr>)"
    by (simp add: alias_templates_def fill_from_parent_def numeral_2_eq_2)
  have "\<exists>r. extract_template_data 2 ''MyAlias'' alias_templates = Inr r"
    using extract_template_data_limit[where frames = 2 and templates_dict = alias_templates
            and template_name = "''MyAlias''"] e by blast
  then have 1: "extract_template_data 2 ''MyAlias'' alias_templates =
     Inr (Some \<lparr> td_description = ''A non-volatile handle'', td_data_type = ''string'',
                 td_default_value = ''cpe-1'' \<rparr>)"
    using v by simp
  have 2: "extract_template_data 1 ''MyAlias'' alias_templates = Inl RecursionError"
    using extract_template_data_limit[where frames = 1 and templates_dict = alias_templates
            and template_name = "''MyAlias''"] n by blast
  have 3: "extract_template_data 7 ''B'' cyclic_templates = Inl RecursionError"
    using extract_template_data_limit[where frames = 7 and templates_dict = cyclic_templates
            and a = "''B''" and b = "''A''"
            and ta = "\<lparr> t_name = ''B'', t_ref = [], t_template = ''A'', t_description = [],
                         t_data_type = [], t_default_value = [] \<rparr>"
            and tb = "\<lparr> t_name = ''A'', t_ref = [], t_template = ''B'', t_description = [],
                         t_data_type = [], t_default_value = [] \<rparr>"]
    by (simp add: cyclic_templates_def)
  show ?thesis using 1 2 3 by blast
qed

text \<open>
  C5, as stated, fails: on two templates that name each other as parent the resolution
  does not return; with the 1000 invocations that the default recursion limit admits at
  most, it raises \<open>RecursionError\<close>.
\<close>

theorem extract_template_data_cycle_counterexample:
  "extract_template_data 1000 ''A'' cyclic_templates = Inl RecursionError"
proof -
  have "\<not> template_chain_ends_within 1000 cyclic_templates ''A''"
    using mutual_parents_never_end[of cyclic_templates "''A''" _ "''B''" _ 1000]
    by (simp add: cyclic_templates_def)
  then show ?thesis by (rule extract_template_data_raises)
qed

section \<open>Claims about the parameter extractor\<close>

lemmas eval_param = extract_parameter_data_def schema_stage_def description_stage_def
  full_path_of_def process_syntax_def type_step_def format_type_def range_format_def
  string_format_def tag_name_of_def hexbinary_format_def clean_text_def substitute_macros_def
  macro_replacer_def strip_def is_space_def after_bar_def apply_template_def apply_reference_def
  resolve_reference_def

lemma scan_defaults_find:
  "snd (scan_defaults cs od) =
     (case List.find (\<lambda>e. tag_name_of e = ''datatype'') cs of
        None \<Rightarrow> None | Some dt \<Rightarrow> get dt ''ref'')"
  by (induction cs arbitrary: od) (auto simp: Let_def split: option.splits)

lemma process_syntax_ref:
  assumes "List.find (\<lambda>e. tag_name_of e = ''datatype'') (children syntax_elem) = Some dt"
    and "get dt ''ref'' = Some r" and "r \<noteq> []"
    and "resolve_datatype_reference frames r xml_root None = Inr None"
  shows "\<exists>od1. process_syntax frames syntax_elem xml_root od = Inr (''ref('' @ r @ '')'', od1)"
proof -
  have "snd (scan_defaults (children syntax_elem) od) = Some r"
    using assms(1,2) by (simp add: scan_defaults_find)
  then obtain od1 where "scan_defaults (children syntax_elem) od = (od1, Some r)"
    by (cases "scan_defaults (children syntax_elem) od") auto
  then show ?thesis using assms(3,4) by (simp add: process_syntax_def)
qed

text \<open>Whether a syntax element raises does not depend on the default value so far.\<close>

lemma process_syntax_raises_indep:
  "process_syntax frames syntax_elem xml_root od = Inl e \<Longrightarrow>
   process_syntax frames syntax_elem xml_root od' = Inl e"
proof -
  assume a: "process_syntax frames syntax_elem xml_root od = Inl e"
  obtain o1 rf where s1: "scan_defaults (children syntax_elem) od = (o1, rf)"
    by (cases "scan_defaults (children syntax_elem) od") auto
  obtain o2 rf' where s2: "scan_defaults (children syntax_elem) od' = (o2, rf')"
    by (cases "scan_defaults (children syntax_elem) od'") auto
  have "snd (scan_defaults (children syntax_elem) od) = snd (scan_defaults (children syntax_elem) od')"
    by (simp only: scan_defaults_find)
  then have rf: "rf' = rf" using s1 s2 by simp
  show ?thesis
    using a unfolding process_syntax_def s1 s2 rf
    by (auto simp: Let_def split: if_splits sum.splits option.splits)
qed

lemma syntax_stage_no_syntax:
  "filter (\<lambda>e. contains ''syntax'' (lower (tag e))) cs = [] \<Longrightarrow>
   syntax_stage frames cs xml_root acc = Inr acc"
  by (induction cs arbitrary: acc) (auto split: if_splits)

lemma syntax_stage_last:
  "filter (\<lambda>e. contains ''syntax'' (lower (tag e))) cs \<noteq> [] \<Longrightarrow>
   list_all (\<lambda>e. process_syntax frames e xml_root [] \<noteq> Inl RecursionError)
     (butlast (filter (\<lambda>e. contains ''syntax'' (lower (tag e))) cs)) \<Longrightarrow>
   \<exists>od. syntax_stage frames cs xml_root acc =
          process_syntax frames (last (filter (\<lambda>e. contains ''syntax'' (lower (tag e))) cs))
            xml_root od"
proof (induction cs arbitrary: acc)
  case Nil
  then show ?case by simp
next
  case (Cons c cs)
  let ?syn = "\<lambda>e. contains ''syntax'' (lower (tag e))"
  show ?case
  proof (cases "?syn c")
    case False
    then show ?thesis using Cons by simp
  next
    case True
    show ?thesis
    proof (cases "filter ?syn cs = []")
      case e: True
      have "syntax_stage frames (c # cs) xml_root acc = process_syntax frames c xml_root (snd acc)"
        using True syntax_stage_no_syntax[OF e]
        by (cases "process_syntax frames c xml_root (snd acc)") simp_all
      then show ?thesis using True e by auto
    next
      case ne: False
      have "process_syntax frames c xml_root [] \<noteq> Inl RecursionError"
        using Cons.prems(2) True ne by simp
      then have "process_syntax frames c xml_root (snd acc) \<noteq> Inl RecursionError"
        using process_syntax_raises_indep by blast
      then obtain acc' where p: "process_syntax frames c xml_root (snd acc) = Inr acc'"
        by (cases "process_syntax frames c xml_root (snd acc)") (auto intro: error.exhaust)
      have "\<exists>od. syntax_stage frames cs xml_root acc' =
                  process_syntax frames (last (filter ?syn cs)) xml_root od"
        using Cons.prems(2) True ne by (intro Cons.IH) auto
      then show ?thesis using True ne p by simp
    qed
  qed
qed

lemma apply_template_keeps:
  "(Description pd \<noteq> [] \<longrightarrow> Description (apply_template pd t) = Description pd) \<and>
   (Data_Type pd \<noteq> [] \<longrightarrow> Data_Type (apply_template pd t) = Data_Type pd) \<and>
   (Object_Default pd \<noteq> [] \<longrightarrow> Object_Default (apply_template pd t) = Object_Default pd)"
  by (cases t) (auto simp: apply_template_def Let_def)

lemma apply_reference_keeps:
  "(Description pd \<noteq> [] \<longrightarrow> Description (apply_reference pd t) = Description pd) \<and>
   (Data_Type pd \<noteq> [] \<longrightarrow> Data_Type (apply_reference pd t) = Data_Type pd) \<and>
   (Object_Default pd \<noteq> [] \<longrightarrow> Object_Default (apply_reference pd t) = Object_Default pd)"
  by (cases t) (auto simp: apply_reference_def Let_def)

text \<open>The record that is returned, from the record of the schema stage.\<close>

lemma extract_parameter_data_Inr:
  assumes "extract_parameter_data frames param_elem parent refs tbl html xml_root = Inr pd"
  shows "\<exists>typed t r.
           syntax_stage frames (children param_elem) xml_root ([], []) = Inr typed \<and>
           pd = apply_reference (apply_template (schema_stage param_elem parent html typed) t) r \<and>
           (if get_default param_elem ''template'' [] \<noteq> []
            then extract_template_data frames (get_default param_elem ''template'' []) tbl = Inr t
            else t = None) \<and>
           (if get_default param_elem ''ref'' [] \<noteq> []
            then r = resolve_reference (get_default param_elem ''ref'' []) refs
            else r = None)"
proof -
  from assms obtain typed where
    ty: "syntax_stage frames (children param_elem) xml_root ([], []) = Inr typed"
    by (auto simp: extract_parameter_data_def Let_def split: sum.splits)
  let ?r = "if get_default param_elem ''ref'' [] \<noteq> []
            then resolve_reference (get_default param_elem ''ref'' []) refs else None"
  show ?thesis
  proof (cases "get_default param_elem ''template'' [] \<noteq> []")
    case True
    with assms ty obtain t where
      t: "extract_template_data frames (get_default param_elem ''template'' []) tbl = Inr t"
      by (auto simp: extract_parameter_data_def Let_def split: sum.splits)
    have "pd = apply_reference (apply_template (schema_stage param_elem parent html typed) t) ?r"
      using assms ty True t
      by (auto simp: extract_parameter_data_def Let_def apply_reference_def)
    then show ?thesis using ty True t by (intro exI[of _ typed] exI[of _ t] exI[of _ ?r]) simp
  next
    case False
    have "pd = apply_reference (apply_template (schema_stage param_elem parent html typed) None) ?r"
      using assms ty False
      by (auto simp: extract_parameter_data_def Let_def apply_reference_def apply_template_def)
    then show ?thesis using ty False by (intro exI[of _ typed] exI[of _ None] exI[of _ ?r]) simp
  qed
qed

lemma extract_parameter_data_returns:
  assumes "syntax_stage frames (children param_elem) xml_root ([], []) = Inr typed"
    and "get_default param_elem ''template'' [] = [] \<or>
         template_chain_ends_within frames tbl (get_default param_elem ''template'' [])"
  shows "\<exists>pd. extract_parameter_data frames param_elem parent refs tbl html xml_root = Inr pd"
proof (cases "get_default param_elem ''template'' [] = []")
  case True
  then show ?thesis using assms(1) by (simp add: extract_parameter_data_def Let_def)
next
  case False
  with assms(2) obtain t where
    "extract_template_data frames (get_default param_elem ''template'' []) tbl = Inr t"
    using extract_template_data_returns by blast
  then show ?thesis using False assms(1) by (simp add: extract_parameter_data_def Let_def)
qed

lemma final_keeps:
  assumes "extract_parameter_data frames param_elem parent refs tbl html xml_root = Inr pd"
  shows "\<exists>typed. syntax_stage frames (children param_elem) xml_root ([], []) = Inr typed \<and>
         (Description (schema_stage param_elem parent html typed) \<noteq> [] \<longrightarrow>
            Description pd = Description (schema_stage param_elem parent html typed)) \<and>
         (Data_Type (schema_stage param_elem parent html typed) \<noteq> [] \<longrightarrow>
            Data_Type pd = Data_Type (schema_stage param_elem parent html typed)) \<and>
         (Object_Default (schema_stage param_elem parent html typed) \<noteq> [] \<longrightarrow>
            Object_Default pd = Object_Default (schema_stage param_elem parent html typed))"
proof -
  from extract_parameter_data_Inr[OF assms] obtain typed t r where
    ty: "syntax_stage frames (children param_elem) xml_root ([], []) = Inr typed" and
    pd: "pd = apply_reference (apply_template (schema_stage param_elem parent html typed) t) r"
    by blast
  have "(Description (schema_stage param_elem parent html typed) \<noteq> [] \<longrightarrow>
            Description pd = Description (schema_stage param_elem parent html typed)) \<and>
         (Data_Type (schema_stage param_elem parent html typed) \<noteq> [] \<longrightarrow>
            Data_Type pd = Data_Type (schema_stage param_elem parent html typed)) \<and>
         (Object_Default (schema_stage param_elem parent html typed) \<noteq> [] \<longrightarrow>
            Object_Default pd = Object_Default (schema_stage param_elem parent html typed))"
    unfolding pd
    using apply_template_keeps[of "schema_stage param_elem parent html typed" t]
          apply_reference_keeps[of "apply_template (schema_stage param_elem parent html typed) t" r]
    by auto
  then show ?thesis using ty by blast
qed

text \<open>
  C7.  When the last syntax block of a parameter names a data-type reference (the first
  \<open>dataType\<close> child has a non-empty \<open>ref\<close>) and the chain resolution returns null, the
  \<open>Data Type\<close> of the record is \<open>ref(name)\<close> with the name of the reference, and the
  extraction goes on to return the record (no syntax block before the last one raising,
  and the template of the parameter, if it has one, ending within the recursion limit).
\<close>

theorem unresolved_reference_placeholder:
  assumes "filter (\<lambda>e. contains ''syntax'' (lower (tag e))) (children param_elem) \<noteq> []"
    and "list_all (\<lambda>e. process_syntax frames e xml_root [] \<noteq> Inl RecursionError)
           (butlast (filter (\<lambda>e. contains ''syntax'' (lower (tag e))) (children param_elem)))"
    and "List.find (\<lambda>e. tag_name_of e = ''datatype'')
           (children (last (filter (\<lambda>e. contains ''syntax'' (lower (tag e))) (children param_elem))))
         = Some dt"
    and "get dt ''ref'' = Some r" and "r \<noteq> []"
    and "resolve_datatype_reference frames r xml_root None = Inr None"
    and "get_default param_elem ''template'' [] = [] \<or>
         template_chain_ends_within frames templates_dict (get_default param_elem ''template'' [])"
  shows "\<exists>pd. extract_parameter_data frames param_elem parent_object_name references_dict
                 templates_dict html_descriptions xml_root = Inr pd \<and>
              Data_Type pd = ''ref('' @ r @ '')''"
proof -
  from syntax_stage_last[OF assms(1,2)] obtain od where
    "syntax_stage frames (children param_elem) xml_root ([], []) =
       process_syntax frames
         (last (filter (\<lambda>e. contains ''syntax'' (lower (tag e))) (children param_elem)))
         xml_root od"
    by blast
  moreover from process_syntax_ref[OF assms(3,4,5,6)] obtain od1 where
    "process_syntax frames
       (last (filter (\<lambda>e. contains ''syntax'' (lower (tag e))) (children param_elem)))
       xml_root od = Inr (''ref('' @ r @ '')'', od1)"
    by blast
  ultimately have ty: "syntax_stage frames (children param_elem) xml_root ([], []) =
                         Inr (''ref('' @ r @ '')'', od1)"
    by simp
  from extract_parameter_data_returns[OF ty assms(7)] obtain pd where
    pd: "extract_parameter_data frames param_elem parent_object_name references_dict
           templates_dict html_descriptions xml_root = Inr pd"
    by blast
  from final_keeps[OF pd] ty have
    "Data_Type (schema_stage param_elem parent_object_name html_descriptions
                  (''ref('' @ r @ '')'', od1)) \<noteq> [] \<longrightarrow>
     Data_Type pd = Data_Type (schema_stage param_elem parent_object_name html_descriptions
                                 (''ref('' @ r @ '')'', od1))"
    by auto
  then have "Data_Type pd = ''ref('' @ r @ '')''"
    by (simp add: schema_stage_def Let_def)
  then show ?thesis using pd by blast
qed

theorem unresolved_reference_placeholder_witness:
  "\<exists>pd. extract_parameter_data 7 typed_param ''Device.Test.'' Map.empty Map.empty [] cyclic_doc
          = Inr pd \<and>
        Data_Type pd = ''ref(IPAddress)''"
proof -
  let ?dt = "Element ''dataType'' [(''ref'', ''IPAddress'')] None None []"
  have 1: "filter (\<lambda>e. contains ''syntax'' (lower (tag e))) (children typed_param) \<noteq> []"
    by (simp add: typed_param_def eval_xml)
  have 2: "list_all (\<lambda>e. process_syntax 7 e cyclic_doc [] \<noteq> Inl RecursionError)
             (butlast (filter (\<lambda>e. contains ''syntax'' (lower (tag e))) (children typed_param)))"
    by (simp add: typed_param_def eval_xml)
  have 3: "List.find (\<lambda>e. tag_name_of e = ''datatype'')
           (children (last (filter (\<lambda>e. contains ''syntax'' (lower (tag e))) (children typed_param))))
         = Some ?dt"
    by (simp add: typed_param_def tag_name_of_def eval_xml)
  have 4: "get ?dt ''ref'' = Some ''IPAddress''" by (simp add: get_def)
  have 5: "resolve_datatype_reference 7 ''IPAddress'' cyclic_doc None = Inr None"
    by (simp add: eval_docs eval_resolve eval_xml)
  have 6: "get_default typed_param ''template'' [] = [] \<or>
           template_chain_ends_within 7 Map.empty (get_default typed_param ''template'' [])"
    by (simp add: typed_param_def eval_xml)
  show ?thesis
    using unresolved_reference_placeholder[OF 1 2 3 4 _ 5 6, of "''Device.Test.''" Map.empty "[]"]
    by simp
qed

lemma apply_template_fills:
  "(Description pd = [] \<and> td_description td \<noteq> [] \<longrightarrow>
      Description (apply_template pd (Some td)) = td_description td) \<and>
   (Data_Type pd = [] \<and> td_data_type td \<noteq> [] \<longrightarrow>
      Data_Type (apply_template pd (Some td)) = td_data_type td) \<and>
   (Object_Default pd = [] \<and> td_default_value td \<noteq> [] \<longrightarrow>
      Object_Default (apply_template pd (Some td)) = td_default_value td)"
  by (auto simp: apply_template_def Let_def)

lemma description_stage_exact:
  "map_of html (normalize_path full_path) = Some d \<Longrightarrow>
   description_stage html param_elem name parent full_path = d"
  by (simp add: description_stage_def Let_def)

lemma find_relaxed_first:
  assumes "html = pre @ (k, d) # post"
    and "list_all (\<lambda>(k', d'). relaxed \<noteq> replace ''{i}'' [] k') pre"
    and "relaxed = replace ''{i}'' [] k"
  shows "List.find (\<lambda>(key, d). relaxed = replace ''{i}'' [] key) html = Some (k, d)"
  using assms(2) unfolding assms(1)
  by (induction pre) (use assms(3) in auto)

lemma find_relaxed_none:
  "list_all (\<lambda>(k', d'). relaxed \<noteq> replace ''{i}'' [] k') html \<Longrightarrow>
   List.find (\<lambda>(key, d). relaxed = replace ''{i}'' [] key) html = None"
  by (induction html) auto

lemma embedded_description_no_desc:
  "list_all (\<lambda>e. \<not> contains ''description'' (lower (tag e))) cs \<Longrightarrow>
   embedded_description cs name parent found = found"
  by (induction cs arbitrary: found) auto

lemma embedded_description_last:
  assumes "cs = cpre @ de # cpost"
    and "contains ''description'' (lower (tag de))"
    and "list_all (\<lambda>e. \<not> contains ''description'' (lower (tag e))) cpost"
  shows "embedded_description cs name parent found =
           Some (clean_text (Some (substitute_macros (itertext de) (Some name) (Some parent))))"
  unfolding assms(1)
  by (induction cpre arbitrary: found)
     (use assms(2,3) in \<open>auto simp: embedded_description_no_desc\<close>)

lemma description_stage_relaxed:
  "map_of html (normalize_path full_path) = None \<Longrightarrow>
   List.find (\<lambda>(key, d). replace ''{i}'' [] (normalize_path full_path) = replace ''{i}'' [] key) html
     = Some (k, d) \<Longrightarrow>
   description_stage html param_elem name parent full_path = d"
  by (simp add: description_stage_def Let_def)

lemma description_stage_embedded:
  "map_of html (normalize_path full_path) = None \<Longrightarrow>
   List.find (\<lambda>(key, d). replace ''{i}'' [] (normalize_path full_path) = replace ''{i}'' [] key) html
     = None \<Longrightarrow>
   description_stage html param_elem name parent full_path =
     (case embedded_description (children param_elem) name parent None of
        Some d \<Rightarrow> d
      | None \<Rightarrow> ''No HTML or XML description available'')"
  by (simp add: description_stage_def Let_def)

lemma schema_stage_description:
  "Description (schema_stage param_elem parent html typed) =
     description_stage html param_elem (get_default param_elem ''name'' []) parent
       (full_path_of parent (get_default param_elem ''name'' []))"
  by (simp add: schema_stage_def Let_def)

text \<open>
  C4, as amended.  The description of a parameter after the schema stage is, in this
  order: (1) the documentation entry under the normalized full path; (2) the first entry,
  in the order of the index, whose key equals the normalized path once \<open>{i}\<close> is removed
  from both; (3) the text of the last embedded description element, macros substituted
  and white space collapsed, empty or not; (4) the sentinel, when the parameter has no
  embedded description element.  A parameter with neither template nor reference keeps
  that description.
\<close>

theorem description_priority:
  assumes "name = get_default param_elem ''name'' []"
    and "normalized = normalize_path (full_path_of parent name)"
    and "relaxed = replace ''{i}'' [] normalized"
  shows
   "(map_of html normalized = Some d \<longrightarrow>
       Description (schema_stage param_elem parent html typed) = d) \<and>
    (map_of html normalized = None \<and> html = pre @ (k, d) # post \<and>
     list_all (\<lambda>(k', d'). relaxed \<noteq> replace ''{i}'' [] k') pre \<and>
     relaxed = replace ''{i}'' [] k \<longrightarrow>
       Description (schema_stage param_elem parent html typed) = d) \<and>
    (map_of html normalized = None \<and>
     list_all (\<lambda>(k', d'). relaxed \<noteq> replace ''{i}'' [] k') html \<and>
     children param_elem = cpre @ de # cpost \<and> contains ''description'' (lower (tag de)) \<and>
     list_all (\<lambda>e. \<not> contains ''description'' (lower (tag e))) cpost \<longrightarrow>
       Description (schema_stage param_elem parent html typed) =
         clean_text (Some (substitute_macros (itertext de) (Some name) (Some parent)))) \<and>
    (map_of html normalized = None \<and>
     list_all (\<lambda>(k', d'). relaxed \<noteq> replace ''{i}'' [] k') html \<and>
     list_all (\<lambda>e. \<not> contains ''description'' (lower (tag e))) (children param_elem) \<longrightarrow>
       Description (schema_stage param_elem parent html typed) =
         ''No HTML or XML description available'') \<and>
    (get_default param_elem ''template'' [] = [] \<and> get_default param_elem ''ref'' [] = [] \<longrightarrow>
       extract_parameter_data frames param_elem parent refs tbl html xml_root =
         (case syntax_stage frames (children param_elem) xml_root ([], []) of
            Inl e \<Rightarrow> Inl e
          | Inr typed \<Rightarrow> Inr (schema_stage param_elem parent html typed)))"
proof (unfold assms schema_stage_description, intro conjI impI)
  let ?name = "get_default param_elem ''name'' []"
  let ?fp = "full_path_of parent ?name"
  let ?relaxed = "replace ''{i}'' [] (normalize_path ?fp)"
  {
    assume "map_of html (normalize_path ?fp) = Some d"
    then show "description_stage html param_elem ?name parent ?fp = d"
      by (rule description_stage_exact)
  next
    assume h: "map_of html (normalize_path ?fp) = None \<and> html = pre @ (k, d) # post \<and>
       list_all (\<lambda>(k', d'). ?relaxed \<noteq> replace ''{i}'' [] k') pre \<and>
       ?relaxed = replace ''{i}'' [] k"
    have "List.find (\<lambda>(key, d). ?relaxed = replace ''{i}'' [] key) html = Some (k, d)"
      by (rule find_relaxed_first[where pre = pre and post = post]) (use h in blast)+
    with h show "description_stage html param_elem ?name parent ?fp = d"
      by (intro description_stage_relaxed) blast+
  next
    assume h: "map_of html (normalize_path ?fp) = None \<and>
       list_all (\<lambda>(k', d'). ?relaxed \<noteq> replace ''{i}'' [] k') html \<and>
       children param_elem = cpre @ de # cpost \<and> contains ''description'' (lower (tag de)) \<and>
       list_all (\<lambda>e. \<not> contains ''description'' (lower (tag e))) cpost"
    have f: "List.find (\<lambda>(key, d). ?relaxed = replace ''{i}'' [] key) html = None"
      by (rule find_relaxed_none) (use h in blast)
    have e: "embedded_description (children param_elem) ?name parent None =
            Some (clean_text (Some (substitute_macros (itertext de) (Some ?name) (Some parent))))"
      by (rule embedded_description_last[where cpre = cpre and cpost = cpost]) (use h in blast)+
    have "description_stage html param_elem ?name parent ?fp =
            (case embedded_description (children param_elem) ?name parent None of
               Some d \<Rightarrow> d | None \<Rightarrow> ''No HTML or XML description available'')"
      by (rule description_stage_embedded) (use h f in blast)+
    then show "description_stage html param_elem ?name parent ?fp =
           clean_text (Some (substitute_macros (itertext de) (Some ?name) (Some parent)))"
      by (simp only: e option.case)
  next
    assume h: "map_of html (normalize_path ?fp) = None \<and>
       list_all (\<lambda>(k', d'). ?relaxed \<noteq> replace ''{i}'' [] k') html \<and>
       list_all (\<lambda>e. \<not> contains ''description'' (lower (tag e))) (children param_elem)"
    have f: "List.find (\<lambda>(key, d). ?relaxed = replace ''{i}'' [] key) html = None"
      by (rule find_relaxed_none) (use h in blast)
    have e: "embedded_description (children param_elem) ?name parent None = None"
      by (rule embedded_description_no_desc) (use h in blast)
    have "description_stage html param_elem ?name parent ?fp =
            (case embedded_description (children param_elem) ?name parent None of
               Some d \<Rightarrow> d | None \<Rightarrow> ''No HTML or XML description available'')"
      by (rule description_stage_embedded) (use h f in blast)+
    then show "description_stage html param_elem ?name parent ?fp =
           ''No HTML or XML description available''"
      by (simp only: e option.case)
  next
    assume "get_default param_elem ''template'' [] = [] \<and> get_default param_elem ''ref'' [] = []"
    then show "extract_parameter_data frames param_elem parent refs tbl html xml_root =
           (case syntax_stage frames (children param_elem) xml_root ([], []) of
              Inl e \<Rightarrow> Inl e
            | Inr typed \<Rightarrow> Inr (schema_stage param_elem parent html typed))"
      by (simp add: extract_parameter_data_def Let_def split: sum.splits)
  }
qed

lemmas eval_path = full_path_of_def eval_normalize

theorem description_priority_witness:
  "Description (schema_stage value_param ''Device.Test.''
      [(''device.other'', ''Other''), (''device.test.value'', ''Exact'')] (''int[1:10]'', [])) = ''Exact'' \<and>
   Description (schema_stage value_param ''Device.Test.''
      [(''device.other'', ''Other''), (''device.{i}test.value'', ''Relaxed''),
       (''{i}device.test.value'', ''Second'')] (''int[1:10]'', [])) = ''Relaxed'' \<and>
   Description (schema_stage value_param ''Device.Test.'' [] (''int[1:10]'', [])) =
      ''Test value an empty string'' \<and>
   Description (schema_stage int_param ''Device.Test.'' [] (''int[1:10]'', [])) =
      ''No HTML or XML description available''"
proof -
  have n: "get_default value_param ''name'' [] = ''Value''"
    by (simp add: value_param_def get_default_def get_def)
  have p: "normalize_path (full_path_of ''Device.Test.'' ''Value'') = ''device.test.value''"
    by (simp add: eval_path)
  have r: "replace ''{i}'' [] ''device.test.value'' = ''device.test.value''"
    by simp
  have n2: "get_default int_param ''name'' [] = ''Port''"
    by (simp add: int_param_def get_default_def get_def)
  have p2: "normalize_path (full_path_of ''Device.Test.'' ''Port'') = ''device.test.port''"
    by (simp add: eval_path)
  have r2: "replace ''{i}'' [] ''device.test.port'' = ''device.test.port''"
    by simp
  have 1: "Description (schema_stage value_param ''Device.Test.''
      [(''device.other'', ''Other''), (''device.test.value'', ''Exact'')] (''int[1:10]'', [])) = ''Exact''"
    using description_priority[OF n[symmetric] p[symmetric] r[symmetric],
            where html = "[(''device.other'', ''Other''), (''device.test.value'', ''Exact'')]"
              and d = "''Exact''"]
    by simp
  have 2: "Description (schema_stage value_param ''Device.Test.''
      [(''device.other'', ''Other''), (''device.{i}test.value'', ''Relaxed''),
       (''{i}device.test.value'', ''Second'')] (''int[1:10]'', [])) = ''Relaxed''"
    using description_priority[OF n[symmetric] p[symmetric] r[symmetric],
            where html = "[(''device.other'', ''Other''), (''device.{i}test.value'', ''Relaxed''),
                 (''{i}device.test.value'', ''Second'')]" and d = "''Relaxed''"
              and pre = "[(''device.other'', ''Other'')]" and k = "''device.{i}test.value''"
              and post = "[(''{i}device.test.value'', ''Second'')]"]
    by simp
  have c: "children value_param =
             [] @ Element ''description'' [] (Some ''Test value {{empty}}'') None [] #
             [Element ''syntax'' [] None None
                [Element ''int'' [] None None
                   [Element ''range'' [(''minInclusive'', ''1''), (''maxInclusive'', ''10'')]
                      None None []]]]"
    by (simp add: value_param_def)
  have t: "clean_text (Some (substitute_macros
             (itertext (Element ''description'' [] (Some ''Test value {{empty}}'') None []))
             (Some ''Value'') (Some ''Device.Test.''))) = ''Test value an empty string''"
    by (simp add: clean_text_def substitute_macros_def macro_replacer_def strip_def is_space_def)
  have 3: "Description (schema_stage value_param ''Device.Test.'' [] (''int[1:10]'', [])) =
      ''Test value an empty string''"
    using description_priority[OF n[symmetric] p[symmetric] r[symmetric],
            where html = "[]" and cpre = "[]"
              and de = "Element ''description'' [] (Some ''Test value {{empty}}'') None []"
              and cpost = "[Element ''syntax'' [] None None
                [Element ''int'' [] None None
                   [Element ''range'' [(''minInclusive'', ''1''), (''maxInclusive'', ''10'')]
                      None None []]]]"] c t
    by (simp add: eval_xml)
  have 4: "Description (schema_stage int_param ''Device.Test.'' [] (''int[1:10]'', [])) =
      ''No HTML or XML description available''"
    using description_priority[OF n2[symmetric] p2[symmetric] r2[symmetric], where html = "[]"]
    by (simp add: int_param_def eval_xml)
  show ?thesis using 1 2 3 4 by blast
qed

text \<open>
  C4, as stated, fails: with no documentation entry and an embedded description element
  that is empty, the description is the empty string, not the sentinel.
\<close>

theorem empty_description_counterexample:
  "extract_parameter_data 1000 blank_param ''Device.Test.'' Map.empty Map.empty [] cyclic_doc =
     Inr \<lparr> Object_Name = ''Device.Test.'', Parameter_Name = ''Blank'',
            Full_Path = ''Device.Test.Blank'', Access = [], Version = [],
            Description = [], Data_Type = [], Object_Default = [], Is_Object = False \<rparr>"
  by (simp add: blank_param_def eval_param eval_xml eval_normalize)

text \<open>
  C2.  Priority law.  A field of the record that is not empty after the schema stage (the
  documentation and the embedded XML) is the field of the returned record: neither the
  template nor the reference overwrites it.  A non-empty documentation entry under the
  normalized path is the final description, whatever the embedded description, the
  template and the reference say.  With no documentation match, a non-empty embedded
  description is the final description, also when the template has a description of its
  own.  A field that the schema stage leaves empty and the template fills is not changed
  by the reference.
\<close>

theorem priority_law:
  assumes "extract_parameter_data frames param_elem parent refs tbl html xml_root = Inr pd"
    and "name = get_default param_elem ''name'' []"
    and "normalized = normalize_path (full_path_of parent name)"
  shows
   "\<exists>typed. syntax_stage frames (children param_elem) xml_root ([], []) = Inr typed \<and>
    (Description (schema_stage param_elem parent html typed) \<noteq> [] \<longrightarrow>
       Description pd = Description (schema_stage param_elem parent html typed)) \<and>
    (Data_Type (schema_stage param_elem parent html typed) \<noteq> [] \<longrightarrow>
       Data_Type pd = Data_Type (schema_stage param_elem parent html typed)) \<and>
    (Object_Default (schema_stage param_elem parent html typed) \<noteq> [] \<longrightarrow>
       Object_Default pd = Object_Default (schema_stage param_elem parent html typed)) \<and>
    (map_of html normalized = Some d \<and> d \<noteq> [] \<longrightarrow> Description pd = d) \<and>
    (map_of html normalized = None \<and>
     List.find (\<lambda>(key, d). replace ''{i}'' [] normalized = replace ''{i}'' [] key) html = None \<and>
     embedded_description (children param_elem) name parent None = Some e \<and> e \<noteq> [] \<longrightarrow>
       Description pd = e) \<and>
    (get_default param_elem ''template'' [] \<noteq> [] \<and>
     extract_template_data frames (get_default param_elem ''template'' []) tbl = Inr (Some td) \<longrightarrow>
       (Description (schema_stage param_elem parent html typed) = [] \<and> td_description td \<noteq> []
          \<longrightarrow> Description pd = td_description td) \<and>
       (Data_Type (schema_stage param_elem parent html typed) = [] \<and> td_data_type td \<noteq> []
          \<longrightarrow> Data_Type pd = td_data_type td) \<and>
       (Object_Default (schema_stage param_elem parent html typed) = [] \<and>
        td_default_value td \<noteq> []
          \<longrightarrow> Object_Default pd = td_default_value td))"
proof -
  from extract_parameter_data_Inr[OF assms(1)] obtain typed t r where
    ty: "syntax_stage frames (children param_elem) xml_root ([], []) = Inr typed" and
    pd: "pd = apply_reference (apply_template (schema_stage param_elem parent html typed) t) r" and
    tt: "if get_default param_elem ''template'' [] \<noteq> []
         then extract_template_data frames (get_default param_elem ''template'' []) tbl = Inr t
         else t = None"
    by blast
  let ?pd0 = "schema_stage param_elem parent html typed"
  let ?name = "get_default param_elem ''name'' []"
  let ?fp = "full_path_of parent ?name"
  have keep: "(Description ?pd0 \<noteq> [] \<longrightarrow> Description pd = Description ?pd0) \<and>
              (Data_Type ?pd0 \<noteq> [] \<longrightarrow> Data_Type pd = Data_Type ?pd0) \<and>
              (Object_Default ?pd0 \<noteq> [] \<longrightarrow> Object_Default pd = Object_Default ?pd0)"
    unfolding pd
    using apply_template_keeps[of ?pd0 t] apply_reference_keeps[of "apply_template ?pd0 t" r]
    by auto
  have a: "Description ?pd0 \<noteq> [] \<longrightarrow> Description pd = Description ?pd0"
    and b: "Data_Type ?pd0 \<noteq> [] \<longrightarrow> Data_Type pd = Data_Type ?pd0"
    and c: "Object_Default ?pd0 \<noteq> [] \<longrightarrow> Object_Default pd = Object_Default ?pd0"
    using keep by blast+
  have h: "map_of html normalized = Some d \<and> d \<noteq> [] \<longrightarrow> Description pd = d"
  proof
    assume m: "map_of html normalized = Some d \<and> d \<noteq> []"
    then have "description_stage html param_elem ?name parent ?fp = d"
      unfolding assms(2,3) by (intro description_stage_exact) blast
    then have "Description ?pd0 = d" by (simp only: schema_stage_description)
    then show "Description pd = d" using a m by simp
  qed
  have x: "map_of html normalized = None \<and>
     List.find (\<lambda>(key, d). replace ''{i}'' [] normalized = replace ''{i}'' [] key) html = None \<and>
     embedded_description (children param_elem) name parent None = Some e \<and> e \<noteq> [] \<longrightarrow>
       Description pd = e"
  proof
    assume m: "map_of html normalized = None \<and>
     List.find (\<lambda>(key, d). replace ''{i}'' [] normalized = replace ''{i}'' [] key) html = None \<and>
     embedded_description (children param_elem) name parent None = Some e \<and> e \<noteq> []"
    have "description_stage html param_elem ?name parent ?fp =
            (case embedded_description (children param_elem) ?name parent None of
               Some d \<Rightarrow> d | None \<Rightarrow> ''No HTML or XML description available'')"
      by (rule description_stage_embedded) (use m in \<open>unfold assms(2,3), blast\<close>)+
    moreover have "embedded_description (children param_elem) ?name parent None = Some e"
      using m unfolding assms(2) by blast
    ultimately have "description_stage html param_elem ?name parent ?fp = e"
      by (simp only: option.case)
    then have "Description ?pd0 = e" by (simp only: schema_stage_description)
    then show "Description pd = e" using a m by simp
  qed
  have tm: "get_default param_elem ''template'' [] \<noteq> [] \<and>
     extract_template_data frames (get_default param_elem ''template'' []) tbl = Inr (Some td) \<longrightarrow>
       (Description ?pd0 = [] \<and> td_description td \<noteq> [] \<longrightarrow> Description pd = td_description td) \<and>
       (Data_Type ?pd0 = [] \<and> td_data_type td \<noteq> [] \<longrightarrow> Data_Type pd = td_data_type td) \<and>
       (Object_Default ?pd0 = [] \<and> td_default_value td \<noteq> []
          \<longrightarrow> Object_Default pd = td_default_value td)"
  proof
    assume m: "get_default param_elem ''template'' [] \<noteq> [] \<and>
     extract_template_data frames (get_default param_elem ''template'' []) tbl = Inr (Some td)"
    with tt have "t = Some td" by simp
    then have pd': "pd = apply_reference (apply_template ?pd0 (Some td)) r" using pd by simp
    show "(Description ?pd0 = [] \<and> td_description td \<noteq> [] \<longrightarrow> Description pd = td_description td) \<and>
       (Data_Type ?pd0 = [] \<and> td_data_type td \<noteq> [] \<longrightarrow> Data_Type pd = td_data_type td) \<and>
       (Object_Default ?pd0 = [] \<and> td_default_value td \<noteq> []
          \<longrightarrow> Object_Default pd = td_default_value td)"
      unfolding pd'
      using apply_template_fills[of ?pd0 td]
            apply_reference_keeps[of "apply_template ?pd0 (Some td)" r]
      by auto
  qed
  show ?thesis
    by (rule exI[of _ typed]) (use ty a b c h x tm in blast)
qed

theorem priority_law_witness:
  "\<exists>pd. extract_parameter_data 7 alias_param ''Device.Test.'' alias_references alias_templates []
          cyclic_doc = Inr pd \<and>
        Description pd = ''The alias'' \<and> Data_Type pd = ''string''"
proof -
  let ?td = "\<lparr> td_description = ''A non-volatile handle'', td_data_type = ''string'',
               td_default_value = [] \<rparr>"
  let ?pd = "\<lparr> Object_Name = ''Device.Test.'', Parameter_Name = ''Alias'',
               Full_Path = ''Device.Test.Alias'', Access = [], Version = [],
               Description = ''The alias'', Data_Type = ''string'', Object_Default = [],
               Is_Object = False \<rparr>"
  have td: "extract_template_data 7 ''Alias'' alias_templates = Inr (Some ?td)"
    by (simp add: alias_templates_def eval_nat_numeral)
  have n: "get_default alias_param ''name'' [] = ''Alias''"
    by (simp add: alias_param_def get_default_def get_def)
  have tn: "get_default alias_param ''template'' [] = ''Alias''"
    by (simp add: alias_param_def get_default_def get_def)
  have p: "normalize_path (full_path_of ''Device.Test.'' ''Alias'') = ''device.test.alias''"
    by (simp add: eval_path)
  have sy: "syntax_stage 7 (children alias_param) cyclic_doc ([], []) = Inr ([], [])"
    by (simp add: alias_param_def eval_xml)
  have E: "extract_parameter_data 7 alias_param ''Device.Test.'' alias_references alias_templates []
             cyclic_doc = Inr ?pd"
    by (simp add: extract_parameter_data_def sy tn td)
       (simp add: alias_param_def eval_param eval_xml eval_normalize alias_references_def)
  have e: "embedded_description (children alias_param) ''Alias'' ''Device.Test.'' None =
             Some ''The alias''"
    by (simp add: alias_param_def eval_param eval_xml)
  have s: "Data_Type (schema_stage alias_param ''Device.Test.'' [] ([], [])) = []"
    by (simp add: schema_stage_def Let_def)
  from E obtain pd where
    P: "extract_parameter_data 7 alias_param ''Device.Test.'' alias_references alias_templates []
          cyclic_doc = Inr pd"
    by blast
  have "Description pd = ''The alias'' \<and> Data_Type pd = ''string''"
    using priority_law[OF P n[symmetric] p[symmetric], where e = "''The alias''" and td = ?td]
          e s td tn sy
    by auto
  then show ?thesis using P by blast
qed

lemma value_param_syntax:
  "syntax_stage frames (children value_param) xml_root ([], []) = Inr (''int[1:10]'', [])"
  by (simp add: value_param_def eval_param eval_xml)

lemma value_param_embedded:
  "embedded_description (children value_param) ''Value'' ''Device.Test.'' None =
     Some ''Test value an empty string''"
  by (simp add: value_param_def eval_param eval_xml)

text \<open>
  C9.  End to end: for the parameter \<open>Value\<close> of the object \<open>Device.Test.\<close>, an \<open>int\<close> with the
  range 1 to 10 and the embedded description \<open>Test value {{empty}}\<close>, and a documentation
  index with no entry that matches \<open>Device.Test.Value\<close>, exactly or relaxed, the record has
  the full path \<open>Device.Test.Value\<close>, the data type \<open>int[1:10]\<close> and the description
  \<open>Test value an empty string\<close>.
\<close>

theorem end_to_end_value:
  assumes "map_of html (normalize_path ''Device.Test.Value'') = None"
    and "list_all (\<lambda>(k, d). replace ''{i}'' [] (normalize_path ''Device.Test.Value'') \<noteq>
                             replace ''{i}'' [] k) html"
  shows "extract_parameter_data frames value_param ''Device.Test.'' refs tbl html xml_root =
           Inr \<lparr> Object_Name = ''Device.Test.'', Parameter_Name = ''Value'',
                  Full_Path = ''Device.Test.Value'', Access = [], Version = [],
                  Description = ''Test value an empty string'', Data_Type = ''int[1:10]'',
                  Object_Default = [], Is_Object = False \<rparr>"
proof -
  have n: "get_default value_param ''name'' [] = ''Value''"
    and a: "get_default value_param ''access'' [] = []"
    and v: "get_default value_param ''version'' [] = []"
    and t: "get_default value_param ''template'' [] = []"
    and r: "get_default value_param ''ref'' [] = []"
    by (simp_all add: value_param_def get_default_def get_def)
  have fp: "full_path_of ''Device.Test.'' ''Value'' = ''Device.Test.Value''"
    by (simp add: eval_path)
  have f: "List.find (\<lambda>(key, d). replace ''{i}'' [] (normalize_path ''Device.Test.Value'') =
                                  replace ''{i}'' [] key) html = None"
    using assms(2) by (rule find_relaxed_none)
  have "description_stage html value_param ''Value'' ''Device.Test.'' ''Device.Test.Value'' =
          (case embedded_description (children value_param) ''Value'' ''Device.Test.'' None of
             Some d \<Rightarrow> d | None \<Rightarrow> ''No HTML or XML description available'')"
    using assms(1) f by (rule description_stage_embedded)
  then have d: "description_stage html value_param ''Value'' ''Device.Test.'' ''Device.Test.Value'' =
                  ''Test value an empty string''"
    by (simp only: value_param_embedded option.case)
  show ?thesis
    by (simp add: extract_parameter_data_def schema_stage_def Let_def n a v t r fp d
                  value_param_syntax)
qed

theorem end_to_end_value_witness:
  "extract_parameter_data 1000 value_param ''Device.Test.'' Map.empty Map.empty
     [(''device.test.other'', ''Another parameter'')] cyclic_doc =
     Inr \<lparr> Object_Name = ''Device.Test.'', Parameter_Name = ''Value'',
            Full_Path = ''Device.Test.Value'', Access = [], Version = [],
            Description = ''Test value an empty string'', Data_Type = ''int[1:10]'',
            Object_Default = [], Is_Object = False \<rparr>"
proof -
  have 1: "map_of [(''device.test.other'', ''Another parameter'')]
             (normalize_path ''Device.Test.Value'') = None"
    by (simp add: eval_normalize)
  have 2: "list_all (\<lambda>(k, d). replace ''{i}'' [] (normalize_path ''Device.Test.Value'') \<noteq>
                               replace ''{i}'' [] k)
             [(''device.test.other'', ''Another parameter'')]"
    by (simp add: eval_normalize)
  show ?thesis by (rule end_to_end_value[OF 1 2])
qed

text \<open>
  C1 at the failing input: a list of \<open>int\<close> with a range renders its constraints in
  parentheses, where the same \<open>int\<close> outside a list renders them in square brackets.
\<close>

theorem int_list_range_parentheses:
  "extract_parameter_data frames int_list_param ''Device.Test.'' refs tbl [] xml_root =
     Inr \<lparr> Object_Name = ''Device.Test.'', Parameter_Name = ''Ports'',
            Full_Path = ''Device.Test.Ports'', Access = [], Version = [],
            Description = ''No HTML or XML description available'',
            Data_Type = ''int(1:10)'', Object_Default = [], Is_Object = False \<rparr> \<and>
   extract_parameter_data frames int_param ''Device.Test.'' refs tbl [] xml_root =
     Inr \<lparr> Object_Name = ''Device.Test.'', Parameter_Name = ''Port'',
            Full_Path = ''Device.Test.Port'', Access = [], Version = [],
            Description = ''No HTML or XML description available'',
            Data_Type = ''int[1:10]'', Object_Default = [], Is_Object = False \<rparr>"
  by (simp add: int_list_param_def int_param_def eval_param eval_xml eval_normalize)

end
